theory Spec2Isabelle
  imports Main "HOL-Library.Word" "HOL-Library.Multiset"
begin

section \<open>NFTTippingJarFHE: the contract's data\<close>

text \<open>
  The model follows \<^verbatim>\<open>contracts/NFT_Tipping_Jar.sol\<close>. Values the caller or the
  owner chooses freely (block timestamps, \<^verbatim>\<open>cooldownSeconds\<close>, ciphertext handles,
  request identifiers, the per-batch counter) are 256-bit words, and the additions the
  compiler checks (Solidity 0.8) are written out with their overflow panic. Array lengths
  and the batch identifiers and tip indices read from them are natural numbers.
  A Solidity \<^verbatim>\<open>mapping\<close> holds the zero value at every key never written, so it is
  a total function.
\<close>

type_synonym uint256 = "256 word"
type_synonym uint32 = "32 word"
type_synonym bytes32 = "256 word"
type_synonym address = "160 word"
type_synonym bytes = "8 word list"

text \<open>An encrypted 32-bit integer is a handle; the contract stores it as a \<^verbatim>\<open>uint256\<close>.\<close>

type_synonym euint32 = uint256

record Tip =
  tipper :: address
  encryptedAmount :: euint32
  encryptedMessagePart1 :: euint32
  encryptedMessagePart2 :: euint32

record Batch =
  id' :: nat
  isOpen :: bool
  startTime :: uint256
  closeTime :: uint256

record DecryptionContext =
  batchId :: nat
  stateHash :: bytes32
  processed :: bool

datatype event =
    OwnershipTransferred address address
  | ProviderAdded address
  | ProviderRemoved address
  | Paused address
  | Unpaused address
  | CooldownSecondsSet uint256 uint256
  | BatchOpened nat uint256
  | BatchClosed nat uint256 uint256
  | TipSubmitted address nat nat
  | DecryptionRequested uint256 nat bytes32
  | DecryptionCompleted uint256 nat uint256

text \<open>
  The custom errors of the contract, and the reverts the compiler adds: \<open>PanicArithmetic\<close>
  (checked arithmetic, code 0x11), \<open>PanicIndex\<close> (array index out of bounds, code 0x32)
  and \<open>AbiDecodeRevert\<close> (\<^verbatim>\<open>abi.decode\<close> on malformed data).
\<close>

datatype error =
    NotOwner
  | NotProvider
  | PausedState
  | CooldownActive
  | BatchNotOpen
  | BatchOpen
  | InvalidBatch
  | ReplayAttempt
  | StateMismatch
  | InvalidProof
  | NotInitialized
  | PanicArithmetic
  | PanicIndex
  | AbiDecodeRevert

record state =
  owner :: address
  isProvider :: "address \<Rightarrow> bool"
  paused :: bool
  cooldownSeconds :: uint256
  lastSubmissionTime :: "address \<Rightarrow> uint256"
  lastDecryptionRequestTime :: "address \<Rightarrow> uint256"
  tips :: "Tip list"
  batches :: "Batch list"
  batchTipCount :: "nat \<Rightarrow> uint256"
  batchTotalEncryptedAmount :: "nat \<Rightarrow> uint256"
  decryptionContexts :: "uint256 \<Rightarrow> DecryptionContext"
  events :: "event list"

text \<open>\<^verbatim>\<open>msg.sender\<close> and \<^verbatim>\<open>block.timestamp\<close> of a call.\<close>

record env =
  sender :: address
  timestamp :: uint256

text \<open>
  What the contract imports and this repository does not contain is a parameter of the
  model: the homomorphic addition \<^verbatim>\<open>FHE.add\<close>, the oracle's proof check
  \<^verbatim>\<open>FHE.checkSignatures\<close>, the hash \<^verbatim>\<open>keccak256(abi.encode(cts, addr))\<close>, and the
  contract's own address \<^verbatim>\<open>address(this)\<close>.
\<close>

record ext =
  FHE_add :: "euint32 \<Rightarrow> euint32 \<Rightarrow> euint32"
  FHE_checkSignatures :: "uint256 \<Rightarrow> bytes \<Rightarrow> bytes \<Rightarrow> bool"
  keccak256_encode :: "bytes32 list \<Rightarrow> address \<Rightarrow> bytes32"
  address_this :: address

section \<open>Helpers of the language and of the FHE library\<close>

definition guard :: "error option \<Rightarrow> (error + 'a) \<Rightarrow> error + 'a" where
  "guard c k = (case c of Some err \<Rightarrow> Inl err | None \<Rightarrow> k)"

definition checked_add :: "uint256 \<Rightarrow> uint256 \<Rightarrow> error + uint256" where
  "checked_add a b = (if unat a + unat b < 2 ^ 256 then Inr (a + b) else Inl PanicArithmetic)"

text \<open>
  Modelled from the spec: \<^verbatim>\<open>FHE.isInitialized\<close> is a function of the imported FHE
  library. The spec describes a handle that is not initialized as the forged or default
  zero handle, and a running total that was never written as uninitialized; the contract
  itself tests the stored total against 0 before it seeds it.
\<close>

definition isInitialized :: "euint32 \<Rightarrow> bool" where
  "isInitialized v = (v \<noteq> 0)"

definition initIfNeeded :: "euint32 \<Rightarrow> error option" where
  "initIfNeeded v = (if \<not> isInitialized v then Some NotInitialized else None)"

text \<open>\<^verbatim>\<open>toUint256\<close>, \<^verbatim>\<open>euint32.wrap\<close> and \<^verbatim>\<open>toBytes32\<close> reinterpret the same 256 bits.\<close>

definition toUint256 :: "euint32 \<Rightarrow> uint256" where
  "toUint256 v = v"

definition wrap :: "uint256 \<Rightarrow> euint32" where
  "wrap v = v"

definition toBytes32 :: "euint32 \<Rightarrow> bytes32" where
  "toBytes32 v = v"

definition hashCiphertexts :: "ext \<Rightarrow> bytes32 list \<Rightarrow> bytes32" where
  "hashCiphertexts x cts = keccak256_encode x cts (address_this x)"

text \<open>\<^verbatim>\<open>abi.decode(cleartexts, (uint32))\<close>: one 32-byte big-endian word, below \<open>2^32\<close>.\<close>

definition be_uint :: "bytes \<Rightarrow> nat" where
  "be_uint bs = foldl (\<lambda>acc b. acc * 256 + unat b) 0 bs"

definition abi_decode_uint32 :: "bytes \<Rightarrow> error + uint32" where
  "abi_decode_uint32 bs =
     (if length bs < 32 then Inl AbiDecodeRevert
      else if be_uint (take 32 bs) < 2 ^ 32 then Inr (of_nat (be_uint (take 32 bs)))
      else Inl AbiDecodeRevert)"

section \<open>Modifiers\<close>

definition onlyOwner :: "state \<Rightarrow> env \<Rightarrow> error option" where
  "onlyOwner s e = (if sender e \<noteq> owner s then Some NotOwner else None)"

definition onlyProvider :: "state \<Rightarrow> env \<Rightarrow> error option" where
  "onlyProvider s e = (if \<not> isProvider s (sender e) then Some NotProvider else None)"

definition whenNotPaused :: "state \<Rightarrow> error option" where
  "whenNotPaused s = (if paused s then Some PausedState else None)"

definition checkSubmissionCooldown :: "state \<Rightarrow> env \<Rightarrow> error option" where
  "checkSubmissionCooldown s e =
     (case checked_add (lastSubmissionTime s (sender e)) (cooldownSeconds s) of
        Inl err \<Rightarrow> Some err
      | Inr limit \<Rightarrow> if timestamp e < limit then Some CooldownActive else None)"

definition checkDecryptionCooldown :: "state \<Rightarrow> env \<Rightarrow> error option" where
  "checkDecryptionCooldown s e =
     (case checked_add (lastDecryptionRequestTime s (sender e)) (cooldownSeconds s) of
        Inl err \<Rightarrow> Some err
      | Inr limit \<Rightarrow> if timestamp e < limit then Some CooldownActive else None)"

section \<open>Constructor and functions\<close>

definition constructor :: "env \<Rightarrow> state" where
  "constructor e =
     \<lparr> owner = sender e,
       isProvider = (\<lambda>_. False)(sender e := True),
       paused = False,
       cooldownSeconds = 60,
       lastSubmissionTime = (\<lambda>_. 0),
       lastDecryptionRequestTime = (\<lambda>_. 0),
       tips = [],
       batches = [\<lparr> id' = 0, isOpen = False, startTime = 0, closeTime = 0 \<rparr>],
       batchTipCount = (\<lambda>_. 0),
       batchTotalEncryptedAmount = (\<lambda>_. 0),
       decryptionContexts = (\<lambda>_. \<lparr> batchId = 0, stateHash = 0, processed = False \<rparr>),
       events = [] \<rparr>"

definition transferOwnership :: "state \<Rightarrow> env \<Rightarrow> address \<Rightarrow> error + state" where
  "transferOwnership s e newOwner =
     guard (onlyOwner s e)
       (Inr (s\<lparr> owner := newOwner,
                events := events s @ [OwnershipTransferred (owner s) newOwner] \<rparr>))"

definition addProvider :: "state \<Rightarrow> env \<Rightarrow> address \<Rightarrow> error + state" where
  "addProvider s e provider =
     guard (onlyOwner s e)
       (if \<not> isProvider s provider
        then Inr (s\<lparr> isProvider := (isProvider s)(provider := True),
                     events := events s @ [ProviderAdded provider] \<rparr>)
        else Inr s)"

definition removeProvider :: "state \<Rightarrow> env \<Rightarrow> address \<Rightarrow> error + state" where
  "removeProvider s e provider =
     guard (onlyOwner s e)
       (if isProvider s provider
        then Inr (s\<lparr> isProvider := (isProvider s)(provider := False),
                     events := events s @ [ProviderRemoved provider] \<rparr>)
        else Inr s)"

definition pause :: "state \<Rightarrow> env \<Rightarrow> error + state" where
  "pause s e =
     guard (onlyOwner s e) (guard (whenNotPaused s)
       (Inr (s\<lparr> paused := True, events := events s @ [Paused (sender e)] \<rparr>)))"

definition unpause :: "state \<Rightarrow> env \<Rightarrow> error + state" where
  "unpause s e =
     guard (onlyOwner s e)
       (Inr (s\<lparr> paused := False, events := events s @ [Unpaused (sender e)] \<rparr>))"

definition setCooldownSeconds :: "state \<Rightarrow> env \<Rightarrow> uint256 \<Rightarrow> error + state" where
  "setCooldownSeconds s e newCooldownSeconds =
     guard (onlyOwner s e)
       (Inr (s\<lparr> cooldownSeconds := newCooldownSeconds,
                events := events s @ [CooldownSecondsSet (cooldownSeconds s) newCooldownSeconds] \<rparr>))"

text \<open>
  \<^verbatim>\<open>batches[batches.length - 1]\<close>: on an empty array the checked subtraction panics.
\<close>

definition currentBatch :: "state \<Rightarrow> error + Batch" where
  "currentBatch s = (if batches s = [] then Inl PanicArithmetic else Inr (last (batches s)))"

definition openBatch :: "state \<Rightarrow> env \<Rightarrow> error + state" where
  "openBatch s e =
     guard (onlyProvider s e) (guard (whenNotPaused s)
       (case currentBatch s of
          Inl err \<Rightarrow> Inl err
        | Inr cur \<Rightarrow>
            if isOpen cur then Inl BatchOpen
            else
              (let newBatchId = length (batches s) in
               Inr (s\<lparr> batches := batches s @
                          [\<lparr> id' = newBatchId, isOpen = True,
                             startTime = timestamp e, closeTime = 0 \<rparr>],
                        events := events s @ [BatchOpened newBatchId (timestamp e)] \<rparr>))))"

definition closeBatch :: "state \<Rightarrow> env \<Rightarrow> error + state" where
  "closeBatch s e =
     guard (onlyProvider s e) (guard (whenNotPaused s)
       (case currentBatch s of
          Inl err \<Rightarrow> Inl err
        | Inr cur \<Rightarrow>
            if \<not> isOpen cur then Inl BatchNotOpen
            else
              Inr (s\<lparr> batches := (batches s)
                         [length (batches s) - 1 :=
                            cur\<lparr> isOpen := False, closeTime := timestamp e \<rparr>],
                       events := events s @
                         [BatchClosed (id' cur) (timestamp e) (batchTipCount s (id' cur))] \<rparr>)))"

definition submitTip ::
  "ext \<Rightarrow> state \<Rightarrow> env \<Rightarrow> euint32 \<Rightarrow> euint32 \<Rightarrow> euint32 \<Rightarrow> error + state" where
  "submitTip x s e amount part1 part2 =
     guard (whenNotPaused s) (guard (checkSubmissionCooldown s e)
       (case currentBatch s of
          Inl err \<Rightarrow> Inl err
        | Inr cur \<Rightarrow>
            if \<not> isOpen cur then Inl BatchNotOpen
            else
              guard (initIfNeeded amount) (guard (initIfNeeded part1) (guard (initIfNeeded part2)
                (let tipIndex = length (tips s) in
                 case checked_add (batchTipCount s (id' cur)) 1 of
                   Inl err \<Rightarrow> Inl err
                 | Inr cnt \<Rightarrow>
                     Inr (s\<lparr> tips := tips s @
                                [\<lparr> tipper = sender e, encryptedAmount = amount,
                                   encryptedMessagePart1 = part1,
                                   encryptedMessagePart2 = part2 \<rparr>],
                              batchTipCount := (batchTipCount s)(id' cur := cnt),
                              batchTotalEncryptedAmount := (batchTotalEncryptedAmount s)
                                (id' cur :=
                                   (if batchTotalEncryptedAmount s (id' cur) = 0
                                    then toUint256 amount
                                    else toUint256
                                      (FHE_add x (wrap (batchTotalEncryptedAmount s (id' cur)))
                                         amount))),
                              lastSubmissionTime :=
                                (lastSubmissionTime s)(sender e := timestamp e),
                              events := events s @
                                [TipSubmitted (sender e) (id' cur) tipIndex] \<rparr>))))))"

text \<open>
  \<^verbatim>\<open>FHE.requestDecryption\<close> returns the identifier the oracle issues; it is the
  argument \<open>requestId\<close> of the model.
\<close>

definition requestBatchTotalDecryption ::
  "ext \<Rightarrow> state \<Rightarrow> env \<Rightarrow> nat \<Rightarrow> uint256 \<Rightarrow> error + state" where
  "requestBatchTotalDecryption x s e bid requestId =
     guard (onlyProvider s e) (guard (whenNotPaused s) (guard (checkDecryptionCooldown s e)
       (if bid \<ge> length (batches s) \<or> bid = 0 then Inl InvalidBatch
        else if isOpen (batches s ! bid) then Inl BatchOpen
        else
          (let totalEncryptedAmount = wrap (batchTotalEncryptedAmount s bid) in
           guard (initIfNeeded totalEncryptedAmount)
             (let cts = [toBytes32 totalEncryptedAmount];
                  h = hashCiphertexts x cts in
              Inr (s\<lparr> decryptionContexts := (decryptionContexts s)
                         (requestId := \<lparr> batchId = bid, stateHash = h, processed = False \<rparr>),
                       lastDecryptionRequestTime :=
                         (lastDecryptionRequestTime s)(sender e := timestamp e),
                       events := events s @ [DecryptionRequested requestId bid h] \<rparr>))))))"

definition myCallback ::
  "ext \<Rightarrow> state \<Rightarrow> uint256 \<Rightarrow> bytes \<Rightarrow> bytes \<Rightarrow> error + state" where
  "myCallback x s requestId cleartexts proof =
     (if processed (decryptionContexts s requestId) then Inl ReplayAttempt
      else
        (let ctx = decryptionContexts s requestId in
         if batchId ctx \<ge> length (batches s) then Inl PanicIndex
         else
           (let currentTotalEncryptedAmount = wrap (batchTotalEncryptedAmount s (batchId ctx)) in
            guard (initIfNeeded currentTotalEncryptedAmount)
              (let currentCts = [toBytes32 currentTotalEncryptedAmount];
                   currentStateHash = hashCiphertexts x currentCts in
               if currentStateHash \<noteq> stateHash ctx then Inl StateMismatch
               else if \<not> FHE_checkSignatures x requestId cleartexts proof then Inl InvalidProof
               else
                 (case abi_decode_uint32 cleartexts of
                    Inl err \<Rightarrow> Inl err
                  | Inr totalAmount \<Rightarrow>
                      Inr (s\<lparr> decryptionContexts := (decryptionContexts s)
                                 (requestId := (decryptionContexts s requestId)
                                    \<lparr> processed := True \<rparr>),
                               events := events s @
                                 [DecryptionCompleted requestId (batchId ctx)
                                    (ucast totalAmount)] \<rparr>))))))"

section \<open>Transactions\<close>

datatype call =
    TransferOwnership address
  | AddProvider address
  | RemoveProvider address
  | Pause
  | Unpause
  | SetCooldownSeconds uint256
  | OpenBatch
  | CloseBatch
  | SubmitTip euint32 euint32 euint32
  | RequestBatchTotalDecryption nat uint256
  | MyCallback uint256 bytes bytes

fun dispatch :: "ext \<Rightarrow> state \<Rightarrow> env \<Rightarrow> call \<Rightarrow> error + state" where
  "dispatch x s e (TransferOwnership a) = transferOwnership s e a"
| "dispatch x s e (AddProvider a) = addProvider s e a"
| "dispatch x s e (RemoveProvider a) = removeProvider s e a"
| "dispatch x s e Pause = pause s e"
| "dispatch x s e Unpause = unpause s e"
| "dispatch x s e (SetCooldownSeconds n) = setCooldownSeconds s e n"
| "dispatch x s e OpenBatch = openBatch s e"
| "dispatch x s e CloseBatch = closeBatch s e"
| "dispatch x s e (SubmitTip a p1 p2) = submitTip x s e a p1 p2"
| "dispatch x s e (RequestBatchTotalDecryption b r) = requestBatchTotalDecryption x s e b r"
| "dispatch x s e (MyCallback r c p) = myCallback x s r c p"

text \<open>A call that reverts leaves the storage and the log as they were.\<close>

definition transact :: "ext \<Rightarrow> state \<Rightarrow> env \<times> call \<Rightarrow> state" where
  "transact x s tx = (case dispatch x s (fst tx) (snd tx) of Inl _ \<Rightarrow> s | Inr s' \<Rightarrow> s')"

definition run :: "ext \<Rightarrow> state \<Rightarrow> (env \<times> call) list \<Rightarrow> state" where
  "run x s txs = foldl (transact x) s txs"

section \<open>The ledger of a batch, and invariants\<close>

text \<open>
  A \<^verbatim>\<open>Tip\<close> does not store its batch: the batch of a contribution is the one named by
  its \<^verbatim>\<open>TipSubmitted\<close> event, which also carries the index of the tip in \<^verbatim>\<open>tips\<close>.
  \<open>batch_amounts s b\<close> lists the encrypted amounts submitted to batch \<open>b\<close>, oldest first.
\<close>

fun tipIndexIn :: "nat \<Rightarrow> event \<Rightarrow> nat option" where
  "tipIndexIn b (TipSubmitted t b' i) = (if b' = b then Some i else None)"
| "tipIndexIn b _ = None"

definition tip_indices :: "event list \<Rightarrow> nat \<Rightarrow> nat list" where
  "tip_indices evs b = List.map_filter (tipIndexIn b) evs"

definition batch_amounts :: "state \<Rightarrow> nat \<Rightarrow> euint32 list" where
  "batch_amounts s b = map (\<lambda>i. encryptedAmount (tips s ! i)) (tip_indices (events s) b)"

definition seed_or_add :: "(euint32 \<Rightarrow> euint32 \<Rightarrow> euint32) \<Rightarrow> euint32 \<Rightarrow> euint32 \<Rightarrow> euint32" where
  "seed_or_add add cur a = (if cur = 0 then a else add cur a)"

definition homomorphic_fold :: "(euint32 \<Rightarrow> euint32 \<Rightarrow> euint32) \<Rightarrow> euint32 list \<Rightarrow> euint32" where
  "homomorphic_fold add as = (case as of [] \<Rightarrow> 0 | a # rest \<Rightarrow> foldl add a rest)"

definition batches_inv :: "state \<Rightarrow> bool" where
  "batches_inv s \<longleftrightarrow>
     batches s \<noteq> [] \<and>
     map id' (batches s) = [0..<length (batches s)] \<and>
     list_all (\<lambda>b. \<not> isOpen b) (butlast (batches s)) \<and>
     \<not> isOpen (hd (batches s)) \<and>
     batchTotalEncryptedAmount s 0 = 0"

definition ledger_inv :: "ext \<Rightarrow> state \<Rightarrow> bool" where
  "ledger_inv x s \<longleftrightarrow>
     (\<forall>b. list_all (\<lambda>i. i < length (tips s)) (tip_indices (events s) b)) \<and>
     list_all (\<lambda>t. isInitialized (encryptedAmount t)) (tips s) \<and>
     (\<forall>b. batchTotalEncryptedAmount s b =
            foldl (seed_or_add (FHE_add x)) 0 (batch_amounts s b))"

text \<open>
  Every context a request has stored (the default context names batch 0, a request never
  does) names a batch that exists and whose running total is initialized.
\<close>

definition contexts_inv :: "state \<Rightarrow> bool" where
  "contexts_inv s \<longleftrightarrow>
     (\<forall>r. batchId (decryptionContexts s r) \<noteq> 0 \<longrightarrow>
          batchId (decryptionContexts s r) < length (batches s) \<and>
          isInitialized (batchTotalEncryptedAmount s (batchId (decryptionContexts s r))))"

section \<open>The modifiers of the rate-limited functions\<close>

text \<open>
  \<open>submit_gates s e\<close>: a call of \<^verbatim>\<open>submitTip\<close> in state \<open>s\<close> passes its modifiers
  (\<^verbatim>\<open>whenNotPaused\<close>, \<^verbatim>\<open>checkSubmissionCooldown\<close>); \<open>request_gates s e\<close>: a call of
  \<^verbatim>\<open>requestBatchTotalDecryption\<close> passes its own (\<^verbatim>\<open>onlyProvider\<close>, \<^verbatim>\<open>whenNotPaused\<close>,
  \<^verbatim>\<open>checkDecryptionCooldown\<close>).
\<close>

definition submit_gates :: "state \<Rightarrow> env \<Rightarrow> bool" where
  "submit_gates s e \<longleftrightarrow> \<not> paused s \<and> checkSubmissionCooldown s e = None"

definition request_gates :: "state \<Rightarrow> env \<Rightarrow> bool" where
  "request_gates s e \<longleftrightarrow>
     isProvider s (sender e) \<and> \<not> paused s \<and> checkDecryptionCooldown s e = None"

section \<open>Decryption requests in a trace\<close>

text \<open>
  \<open>issues r c\<close>: the call \<open>c\<close> is a decryption request to which the oracle answers with the
  identifier \<open>r\<close>. \<open>completions r evs\<close> counts the \<^verbatim>\<open>DecryptionCompleted\<close> events of
  request \<open>r\<close> in a log.
\<close>

fun issues :: "uint256 \<Rightarrow> call \<Rightarrow> bool" where
  "issues r (RequestBatchTotalDecryption b r') = (r' = r)"
| "issues r _ = False"

fun completes :: "uint256 \<Rightarrow> event \<Rightarrow> bool" where
  "completes r (DecryptionCompleted r' b v) = (r' = r)"
| "completes r _ = False"

definition completions :: "uint256 \<Rightarrow> event list \<Rightarrow> nat" where
  "completions r evs = length (filter (completes r) evs)"

section \<open>A transparent instance of the external interface\<close>

text \<open>
  To run the model on concrete transactions the parameters need values. In this instance
  the handle of a 32-bit plaintext is the plaintext plus one, so that no handle is zero;
  addition adds the plaintexts in 32 bits, as \<^verbatim>\<open>FHE.add\<close> does on \<^verbatim>\<open>euint32\<close>; a proof
  is accepted when it is the single byte 1.
\<close>

definition plain_enc :: "uint32 \<Rightarrow> euint32" where
  "plain_enc v = ucast v + 1"

definition plain_dec :: "euint32 \<Rightarrow> uint32" where
  "plain_dec h = ucast (h - 1)"

definition plain_ext :: ext where
  "plain_ext =
     \<lparr> FHE_add = (\<lambda>a b. plain_enc (plain_dec a + plain_dec b)),
       FHE_checkSignatures = (\<lambda>r c p. p = [1]),
       keccak256_encode = (\<lambda>cts a. sum_list cts + ucast a + 1),
       address_this = 7 \<rparr>"

definition at :: "address \<Rightarrow> uint256 \<Rightarrow> env" where
  "at a t = \<lparr> sender = a, timestamp = t \<rparr>"

text \<open>Account 1 deploys and opens batch 1, accounts 2 and 3 tip 5 and 3, account 1 closes.\<close>

definition demo_trace :: "(env \<times> call) list" where
  "demo_trace =
     [(at 1 100, OpenBatch),
      (at 2 110, SubmitTip (plain_enc 5) (plain_enc 0) (plain_enc 0)),
      (at 3 120, SubmitTip (plain_enc 3) (plain_enc 0) (plain_enc 0)),
      (at 1 130, CloseBatch)]"

text \<open>The same, with the amounts \<open>2^32 - 1\<close> and 1.\<close>

definition overflow_trace :: "(env \<times> call) list" where
  "overflow_trace =
     [(at 1 100, OpenBatch),
      (at 2 110, SubmitTip (plain_enc 4294967295) (plain_enc 0) (plain_enc 0)),
      (at 3 120, SubmitTip (plain_enc 1) (plain_enc 0) (plain_enc 0)),
      (at 1 130, CloseBatch)]"

text \<open>
  A state in which the total of the closed batch 1 is no longer the one request 7
  fingerprinted.
\<close>

definition drifted_state :: state where
  "drifted_state =
     (constructor (at 1 0))
       \<lparr> batches :=
           [\<lparr> id' = 0, isOpen = False, startTime = 0, closeTime = 0 \<rparr>,
            \<lparr> id' = 1, isOpen = False, startTime = 100, closeTime = 130 \<rparr>],
         batchTotalEncryptedAmount := (\<lambda>_. 0)(1 := plain_enc 9),
         decryptionContexts :=
           (\<lambda>_. \<lparr> batchId = 0, stateHash = 0, processed = False \<rparr>)
             (7 := \<lparr> batchId = 1,
                      stateHash = hashCiphertexts plain_ext [toBytes32 (plain_enc 8)],
                      processed = False \<rparr>) \<rparr>"

text \<open>The ABI encoding of the \<^verbatim>\<open>uint32\<close> value 8: 32 bytes, big-endian.\<close>

definition cleartext8 :: bytes where
  "cleartext8 = replicate 31 0 @ [8]"

text \<open>
  Account 2 tips at time 110, then the owner sets \<^verbatim>\<open>cooldownSeconds\<close> to \<open>2^256 - 1\<close>.
\<close>

definition cooldown_trace :: "(env \<times> call) list" where
  "cooldown_trace =
     [(at 1 100, OpenBatch),
      (at 2 110, SubmitTip (plain_enc 5) (plain_enc 0) (plain_enc 0)),
      (at 1 120, SetCooldownSeconds
         115792089237316195423570985008687907853269984665640564039457584007913129639935)]"

text \<open>
  After the demo trace the provider requests the decryption of batch 1, the oracle issues
  the identifier 9 and later calls back with the cleartext 8 and an accepted proof. In
  \<open>later_trace\<close> the callback is replayed, a batch is opened and batch 1 is requested
  again under the identifier 10.
\<close>

definition fulfil_trace :: "(env \<times> call) list" where
  "fulfil_trace =
     demo_trace @
     [(at 1 500, RequestBatchTotalDecryption 1 9),
      (at 5 600, MyCallback 9 cleartext8 [1])]"

definition later_trace :: "(env \<times> call) list" where
  "later_trace =
     [(at 6 700, MyCallback 9 cleartext8 [1]),
      (at 1 800, OpenBatch),
      (at 1 900, RequestBatchTotalDecryption 1 10)]"

section \<open>Helper lemmas\<close>

lemma guard_simps [simp]:
  "guard None k = k" "guard (Some err) k = Inl err"
  by (simp_all add: guard_def)

lemma guard_Inr_iff [simp]: "guard c k = Inr v \<longleftrightarrow> c = None \<and> k = Inr v"
  by (simp add: guard_def split: option.splits)

lemma tip_indices_append [simp]:
  "tip_indices (evs @ evs') b = tip_indices evs b @ tip_indices evs' b"
  by (simp add: tip_indices_def map_filter_def)

lemma tip_indices_Nil [simp]: "tip_indices [] b = []"
  by (simp add: tip_indices_def map_filter_def)

lemma tip_indices_single:
  "tip_indices [ev] b = (case tipIndexIn b ev of None \<Rightarrow> [] | Some i \<Rightarrow> [i])"
  by (simp add: tip_indices_def map_filter_def split: option.splits)

lemma id_last:
  assumes "bs \<noteq> []" "map id' bs = [0..<length bs]"
  shows "id' (last bs) = length bs - 1"
proof -
  have "id' (last bs) = last (map id' bs)" using assms(1) by (simp add: last_map)
  also have "\<dots> = length bs - 1" using assms by (simp add: last_upt)
  finally show ?thesis .
qed

lemma list_all_butlast_last:
  "bs \<noteq> [] \<Longrightarrow> list_all P (butlast bs) \<Longrightarrow> P (last bs) \<Longrightarrow> list_all P bs"
  using append_butlast_last_id [of bs] list_all_append [of P "butlast bs" "[last bs]"] by simp

lemma constructor_batches_inv: "batches_inv (constructor e0)"
  by (simp add: batches_inv_def constructor_def)

lemma constructor_ledger_inv: "ledger_inv x (constructor e0)"
  by (simp add: ledger_inv_def constructor_def batch_amounts_def)

lemma openBatch_batches_inv:
  assumes "batches_inv s" "openBatch s e = Inr s'"
  shows "batches_inv s'"
  using assms
  by (auto simp: batches_inv_def openBatch_def currentBatch_def onlyProvider_def whenNotPaused_def
      Let_def butlast_append list_all_butlast_last split: if_splits)

lemma closeBatch_batches_inv:
  assumes "batches_inv s" "closeBatch s e = Inr s'"
  shows "batches_inv s'"
proof -
  from assms(1) have ne: "batches s \<noteq> []" by (simp add: batches_inv_def)
  let ?cur = "last (batches s)"
  let ?bs' = "(batches s)[length (batches s) - 1 := ?cur\<lparr> isOpen := False, closeTime := timestamp e \<rparr>]"
  from assms(2) ne have s': "batches s' = ?bs'" "batchTotalEncryptedAmount s' = batchTotalEncryptedAmount s"
    by (auto simp: closeBatch_def currentBatch_def onlyProvider_def whenNotPaused_def split: if_splits)
  have eq: "?bs' = butlast (batches s) @ [?cur\<lparr> isOpen := False, closeTime := timestamp e \<rparr>]"
    using ne by (metis append_butlast_last_id length_butlast list_update_length)
  have ids: "map id' ?bs' = map id' (batches s)"
  proof -
    have "map id' ?bs' = map id' (butlast (batches s)) @ [id' ?cur]" unfolding eq by simp
    also have "\<dots> = map id' (butlast (batches s) @ [?cur])" by simp
    also have "\<dots> = map id' (batches s)" using ne by simp
    finally show ?thesis .
  qed
  have hd: "\<not> isOpen (hd ?bs')"
    using assms(1) ne unfolding batches_inv_def eq
    by (cases "butlast (batches s)") (auto simp: hd_append)
  show ?thesis
    using assms(1) ne hd unfolding batches_inv_def s' ids
    unfolding eq by simp
qed


lemma submitTip_effect:
  assumes "submitTip x s e a p1 p2 = Inr s'"
  shows "batches s \<noteq> [] \<and> isOpen (last (batches s)) \<and> a \<noteq> 0 \<and> p1 \<noteq> 0 \<and> p2 \<noteq> 0 \<and>
         batches s' = batches s \<and>
         tips s' = tips s @ [\<lparr> tipper = sender e, encryptedAmount = a,
                                  encryptedMessagePart1 = p1, encryptedMessagePart2 = p2 \<rparr>] \<and>
         batchTotalEncryptedAmount s' = (batchTotalEncryptedAmount s)
           (id' (last (batches s)) :=
              seed_or_add (FHE_add x) (batchTotalEncryptedAmount s (id' (last (batches s)))) a) \<and>
         events s' = events s @ [TipSubmitted (sender e) (id' (last (batches s))) (length (tips s))] \<and>
         decryptionContexts s' = decryptionContexts s"
  using assms
  by (auto simp: submitTip_def currentBatch_def whenNotPaused_def initIfNeeded_def isInitialized_def
      seed_or_add_def toUint256_def wrap_def Let_def split: if_splits option.splits sum.splits)

lemma frame_effect:
  assumes "dispatch x s e c = Inr s'"
    and "c \<noteq> OpenBatch" "c \<noteq> CloseBatch" "\<forall>a p1 p2. c \<noteq> SubmitTip a p1 p2"
  shows "batches s' = batches s \<and> tips s' = tips s \<and>
         batchTotalEncryptedAmount s' = batchTotalEncryptedAmount s \<and>
         (\<exists>evs. events s' = events s @ evs \<and> (\<forall>b. tip_indices evs b = []))"
  using assms
  by (cases c)
     (auto simp: transferOwnership_def addProvider_def removeProvider_def pause_def unpause_def
        setCooldownSeconds_def requestBatchTotalDecryption_def myCallback_def
        onlyOwner_def onlyProvider_def whenNotPaused_def initIfNeeded_def Let_def
        tip_indices_single guard_def
        split: if_splits option.splits sum.splits)


lemma open_close_effect:
  assumes "openBatch s e = Inr s' \<or> closeBatch s e = Inr s'"
  shows "tips s' = tips s \<and> batchTotalEncryptedAmount s' = batchTotalEncryptedAmount s \<and>
         (\<exists>evs. events s' = events s @ evs \<and> (\<forall>b. tip_indices evs b = []))"
  using assms
  by (auto simp: openBatch_def closeBatch_def currentBatch_def onlyProvider_def whenNotPaused_def
      Let_def tip_indices_single split: if_splits)

lemma no_tip_effect:
  assumes "dispatch x s e c = Inr s'" and "\<forall>a p1 p2. c \<noteq> SubmitTip a p1 p2"
  shows "tips s' = tips s \<and> batchTotalEncryptedAmount s' = batchTotalEncryptedAmount s \<and>
         (\<exists>evs. events s' = events s @ evs \<and> (\<forall>b. tip_indices evs b = []))"
proof (cases "c = OpenBatch \<or> c = CloseBatch")
  case True
  with assms(1) show ?thesis using open_close_effect [of s e s'] by auto
next
  case False
  with assms show ?thesis using frame_effect [of x s e c s'] by simp
qed

lemma submitTip_batches_inv:
  assumes "batches_inv s" "submitTip x s e a p1 p2 = Inr s'"
  shows "batches_inv s'"
proof -
  note eff = submitTip_effect [OF assms(2)]
  let ?bs = "batches s"
  from assms(1) have ne: "?bs \<noteq> []" and ids: "map id' ?bs = [0..<length ?bs]"
    and hd: "\<not> isOpen (hd ?bs)" and z: "batchTotalEncryptedAmount s 0 = 0"
    by (simp_all add: batches_inv_def)
  from eff have op: "isOpen (last ?bs)" by simp
  have "length ?bs \<noteq> 1"
  proof
    assume "length ?bs = 1"
    then obtain b where "?bs = [b]" by (cases ?bs) auto
    with hd op show False by simp
  qed
  with ne have "length ?bs - 1 \<noteq> 0" by (cases ?bs) auto
  then have "id' (last ?bs) \<noteq> 0" using id_last [OF ne ids] by simp
  with assms(1) eff show ?thesis by (simp add: batches_inv_def)
qed

lemma transact_batches_inv:
  assumes "batches_inv s"
  shows "batches_inv (transact x s tx)"
proof (cases "dispatch x s (fst tx) (snd tx)")
  case (Inl err)
  with assms show ?thesis by (simp add: transact_def)
next
  case (Inr s')
  then have t: "transact x s tx = s'" by (simp add: transact_def)
  show ?thesis
  proof (cases "snd tx")
    case OpenBatch
    with Inr assms show ?thesis unfolding t by (auto intro: openBatch_batches_inv)
  next
    case CloseBatch
    with Inr assms show ?thesis unfolding t by (auto intro: closeBatch_batches_inv)
  next
    case (SubmitTip a p1 p2)
    with Inr assms show ?thesis unfolding t by (auto intro: submitTip_batches_inv)
  qed (use Inr assms frame_effect [of x s "fst tx" "snd tx" s'] in
        \<open>simp_all add: t batches_inv_def\<close>)
qed

lemma submitTip_ledger_inv:
  assumes "ledger_inv x s" "submitTip x s e a p1 p2 = Inr s'"
  shows "ledger_inv x s'"
proof -
  note eff = submitTip_effect [OF assms(2)]
  let ?c = "id' (last (batches s))"
  let ?t = "\<lparr> tipper = sender e, encryptedAmount = a,
              encryptedMessagePart1 = p1, encryptedMessagePart2 = p2 \<rparr>"
  from assms(1) have idx: "\<And>b. list_all (\<lambda>i. i < length (tips s)) (tip_indices (events s) b)"
    and ini: "list_all (\<lambda>t. isInitialized (encryptedAmount t)) (tips s)"
    and tot: "\<And>b. batchTotalEncryptedAmount s b =
                foldl (seed_or_add (FHE_add x)) 0 (batch_amounts s b)"
    by (simp_all add: ledger_inv_def)
  have old: "map (\<lambda>i. encryptedAmount ((tips s @ [?t]) ! i)) (tip_indices (events s) b)
               = batch_amounts s b" for b
    using idx [of b] by (auto simp: batch_amounts_def list_all_iff nth_append)
  have amounts: "batch_amounts s' b = batch_amounts s b @ (if ?c = b then [a] else [])" for b
    using eff old [of b] by (simp add: batch_amounts_def tip_indices_single)
  have idx': "list_all (\<lambda>i. i < length (tips s')) (tip_indices (events s') b)" for b
    using eff idx [of b] by (auto simp: tip_indices_single list_all_iff)
  have ini': "list_all (\<lambda>t. isInitialized (encryptedAmount t)) (tips s')"
    using eff ini by (simp add: isInitialized_def)
  have tot': "batchTotalEncryptedAmount s' b =
                foldl (seed_or_add (FHE_add x)) 0 (batch_amounts s' b)" for b
    using eff by (simp add: amounts tot)
  from idx' ini' tot' show ?thesis by (simp add: ledger_inv_def)
qed

lemma transact_ledger_inv:
  assumes "ledger_inv x s"
  shows "ledger_inv x (transact x s tx)"
proof (cases "dispatch x s (fst tx) (snd tx)")
  case (Inl err)
  with assms show ?thesis by (simp add: transact_def)
next
  case (Inr s')
  then have t: "transact x s tx = s'" by (simp add: transact_def)
  show ?thesis
  proof (cases "\<exists>a p1 p2. snd tx = SubmitTip a p1 p2")
    case True
    with Inr assms show ?thesis unfolding t by (auto intro: submitTip_ledger_inv)
  next
    case False
    with Inr no_tip_effect [of x s "fst tx" "snd tx" s']
    have "tips s' = tips s" "batchTotalEncryptedAmount s' = batchTotalEncryptedAmount s"
      "\<And>b. tip_indices (events s') b = tip_indices (events s) b"
      by auto
    with assms show ?thesis unfolding t by (simp add: ledger_inv_def batch_amounts_def)
  qed
qed

lemma run_append [simp]: "run x s (txs @ txs') = run x (run x s txs) txs'"
  by (simp add: run_def)

lemma run_invariants:
  "batches_inv (run x (constructor e0) txs) \<and> ledger_inv x (run x (constructor e0) txs)"
proof (induction txs rule: rev_induct)
  case Nil
  show ?case by (simp add: run_def constructor_batches_inv constructor_ledger_inv)
next
  case (snoc tx txs)
  then show ?case by (simp add: run_def transact_batches_inv transact_ledger_inv)
qed

lemma plain_dec_enc: "plain_dec (plain_enc v) = v"
  by (simp add: plain_dec_def plain_enc_def ucast_up_ucast_id is_up)

lemma unat_plain_enc: "unat (plain_enc v) = unat v + 1"
proof -
  have small: "unat v < 2 ^ 32" using unsigned_less [of v, where ?'a = nat] by simp
  then have big: "unat v < 2 ^ 256" by (rule less_trans) simp
  have u: "unat (ucast v :: uint256) = unat v"
    using big by (simp add: unsigned_ucast_eq take_bit_nat_eq_self)
  have "unat v + 1 < 2 ^ 256" using small by simp
  then have "unat (ucast v :: uint256) + unat (1 :: uint256) < 2 ^ LENGTH(256)"
    by (simp add: u)
  then have "unat ((ucast v :: uint256) + 1) = unat (ucast v :: uint256) + unat (1 :: uint256)"
    by (simp only: unat_add_lem)
  then show ?thesis by (simp add: plain_enc_def u)
qed

lemma plain_enc_nonzero: "plain_enc v \<noteq> 0"
proof
  assume "plain_enc v = 0"
  then have "unat (plain_enc v) = 0" by simp
  then show False by (simp add: unat_plain_enc)
qed

lemma plain_ext_homomorphic:
  "isInitialized (FHE_add plain_ext a b) \<and>
   plain_dec (FHE_add plain_ext a b) = plain_dec a + plain_dec b"
  by (simp add: plain_ext_def isInitialized_def plain_enc_nonzero plain_dec_enc)

lemma completions_append [simp]:
  "completions r (evs @ evs') = completions r evs + completions r evs'"
  by (simp add: completions_def)

lemma completions_Nil [simp]: "completions r [] = 0"
  by (simp add: completions_def)

lemma completions_single [simp]: "completions r [ev] = (if completes r ev then 1 else 0)"
  by (simp add: completions_def)

lemma foldl_add_initialized:
  assumes "\<forall>a b. isInitialized a \<longrightarrow> isInitialized b \<longrightarrow> isInitialized (add a b)"
  shows "isInitialized a \<Longrightarrow> list_all isInitialized rest \<Longrightarrow> isInitialized (foldl add a rest)"
  using assms by (induction rest arbitrary: a) auto

lemma source_fold_is_homomorphic_fold:
  assumes "\<forall>a b. isInitialized a \<longrightarrow> isInitialized b \<longrightarrow> isInitialized (add a b)"
  shows "list_all isInitialized as \<Longrightarrow>
         foldl (seed_or_add add) 0 as = homomorphic_fold add as"
proof (induction as rule: rev_induct)
  case Nil
  show ?case by (simp add: homomorphic_fold_def)
next
  case (snoc a as)
  then have ih: "foldl (seed_or_add add) 0 as = homomorphic_fold add as"
    and ini: "list_all isInitialized as" by simp_all
  show ?case
  proof (cases as)
    case Nil
    then show ?thesis by (simp add: homomorphic_fold_def seed_or_add_def)
  next
    case (Cons b rest)
    with ini have "isInitialized (foldl add b rest)"
      using foldl_add_initialized [OF assms, of b rest] by simp
    then have nz: "homomorphic_fold add as \<noteq> 0"
      using Cons by (simp add: homomorphic_fold_def isInitialized_def)
    have "foldl (seed_or_add add) 0 (as @ [a])
            = seed_or_add add (foldl (seed_or_add add) 0 as) a" by simp
    also have "\<dots> = seed_or_add add (homomorphic_fold add as) a" by (simp only: ih)
    also have "\<dots> = add (homomorphic_fold add as) a" using nz by (simp add: seed_or_add_def)
    also have "\<dots> = homomorphic_fold add (as @ [a])"
      using Cons by (simp add: homomorphic_fold_def)
    finally show ?thesis .
  qed
qed

lemma dec_foldl_add:
  fixes dec :: "euint32 \<Rightarrow> uint32"
  assumes "\<forall>a b. isInitialized a \<longrightarrow> isInitialized b \<longrightarrow>
             isInitialized (add a b) \<and> dec (add a b) = dec a + dec b"
  shows "isInitialized a \<Longrightarrow> list_all isInitialized rest \<Longrightarrow>
         dec (foldl add a rest) = dec a + sum_list (map dec rest)"
  using assms by (induction rest arbitrary: a) (auto simp: add.assoc)

lemma unat_sum_list:
  "unat (sum_list (ws :: uint32 list)) = sum_list (map unat ws) mod 2 ^ 32"
proof (induction ws)
  case Nil
  show ?case by simp
next
  case (Cons w ws)
  have "unat (w + sum_list ws) = (unat w + unat (sum_list ws)) mod 2 ^ 32"
    by (simp add: unat_word_ariths(1))
  also have "\<dots> = (unat w + sum_list (map unat ws)) mod 2 ^ 32"
    by (simp add: Cons mod_add_right_eq)
  finally show ?case by simp
qed

lemma be_uint_zeros: "be_uint (replicate n 0 @ bs) = be_uint bs"
proof -
  have "foldl (\<lambda>acc b. acc * 256 + unat b) 0 (replicate n (0 :: 8 word)) = 0"
    by (induction n) simp_all
  then show ?thesis by (simp add: be_uint_def)
qed

lemma decode_cleartext8: "abi_decode_uint32 cleartext8 = Inr 8"
proof -
  have "be_uint cleartext8 = 8" by (simp add: cleartext8_def be_uint_zeros) (simp add: be_uint_def)
  moreover have "length cleartext8 = 32" by (simp add: cleartext8_def)
  ultimately show ?thesis by (simp add: abi_decode_uint32_def)
qed

lemma cooldown_limit:
  "(case checked_add l c of
      Inl err \<Rightarrow> Some err
    | Inr limit \<Rightarrow> if t < limit then Some CooldownActive else None)
   = (if 2 ^ 256 \<le> unat l + unat c then Some PanicArithmetic
      else if unat t < unat l + unat c then Some CooldownActive else None)"
proof (cases "unat l + unat c < 2 ^ 256")
  case True
  then have "unat l + unat c < 2 ^ LENGTH(256)" by simp
  then have "unat (l + c) = unat l + unat c" by (simp only: unat_add_lem)
  with True show ?thesis by (simp add: checked_add_def word_less_nat_alt)
next
  case False
  then show ?thesis by (simp add: checked_add_def)
qed

lemma submitTip_body_not_cooldown:
  "\<not> paused s \<Longrightarrow> checkSubmissionCooldown s e \<noteq> Some CooldownActive \<Longrightarrow>
   submitTip x s e a p1 p2 \<noteq> Inl CooldownActive"
  by (auto simp: submitTip_def whenNotPaused_def currentBatch_def initIfNeeded_def guard_def
      checked_add_def Let_def split: option.splits if_splits)

lemma request_body_not_cooldown:
  "isProvider s (sender e) \<Longrightarrow> \<not> paused s \<Longrightarrow>
   checkDecryptionCooldown s e \<noteq> Some CooldownActive \<Longrightarrow>
   requestBatchTotalDecryption x s e bid rid \<noteq> Inl CooldownActive"
  by (auto simp: requestBatchTotalDecryption_def onlyProvider_def whenNotPaused_def
      initIfNeeded_def guard_def Let_def split: option.splits if_splits)

lemma ctx_other_effect:
  assumes "dispatch x s e c = Inr s'" and "\<not> issues r c"
    and "\<forall>cl pf. c \<noteq> MyCallback r cl pf"
  shows "decryptionContexts s' r = decryptionContexts s r \<and>
         completions r (events s') = completions r (events s)"
proof (cases c)
  case (SubmitTip a p1 p2)
  with assms(1) show ?thesis using submitTip_effect [of x s e a p1 p2 s'] by simp
next
  case (RequestBatchTotalDecryption b r')
  with assms(1,2) show ?thesis
    by (auto simp: requestBatchTotalDecryption_def Let_def split: if_splits)
next
  case (MyCallback r' cl pf)
  with assms(3) have "r' \<noteq> r" by simp
  with MyCallback assms(1) show ?thesis
    by (auto simp: myCallback_def Let_def split: if_splits sum.splits)
qed (use assms(1) in \<open>auto simp: transferOwnership_def addProvider_def removeProvider_def
      pause_def unpause_def setCooldownSeconds_def openBatch_def closeBatch_def
      currentBatch_def Let_def split: if_splits\<close>)

lemma callback_default:
  assumes "batches_inv s"
    and "decryptionContexts s r = \<lparr> batchId = 0, stateHash = 0, processed = False \<rparr>"
  shows "myCallback x s r cl pf = Inl NotInitialized"
  using assms
  by (simp add: myCallback_def batches_inv_def initIfNeeded_def isInitialized_def wrap_def Let_def)

lemma transact_keeps_processed:
  assumes "processed (decryptionContexts s r)" and "\<not> issues r (snd tx)"
  shows "decryptionContexts (transact x s tx) r = decryptionContexts s r \<and>
         completions r (events (transact x s tx)) = completions r (events s)"
proof (cases "dispatch x s (fst tx) (snd tx)")
  case (Inl err)
  then show ?thesis by (simp add: transact_def)
next
  case (Inr s')
  have "snd tx \<noteq> MyCallback r cl pf" for cl pf
  proof
    assume "snd tx = MyCallback r cl pf"
    with Inr have "myCallback x s r cl pf = Inr s'" by simp
    with assms(1) show False by (simp add: myCallback_def)
  qed
  with Inr assms(2) show ?thesis
    using ctx_other_effect [of x s "fst tx" "snd tx" s' r] by (simp add: transact_def)
qed

lemma transact_keeps_default:
  assumes "batches_inv s"
    and "decryptionContexts s r = \<lparr> batchId = 0, stateHash = 0, processed = False \<rparr>"
    and "\<not> issues r (snd tx)"
  shows "decryptionContexts (transact x s tx) r = decryptionContexts s r \<and>
         completions r (events (transact x s tx)) = completions r (events s)"
proof (cases "dispatch x s (fst tx) (snd tx)")
  case (Inl err)
  then show ?thesis by (simp add: transact_def)
next
  case (Inr s')
  have "snd tx \<noteq> MyCallback r cl pf" for cl pf
  proof
    assume "snd tx = MyCallback r cl pf"
    with Inr have "myCallback x s r cl pf = Inr s'" by simp
    then show False using callback_default [OF assms(1,2), of x cl pf] by simp
  qed
  with Inr assms(3) show ?thesis
    using ctx_other_effect [of x s "fst tx" "snd tx" s' r] by (simp add: transact_def)
qed

lemma run_keeps_processed:
  assumes "processed (decryptionContexts s r)"
  shows "list_all (\<lambda>tx. \<not> issues r (snd tx)) txs \<Longrightarrow>
         decryptionContexts (run x s txs) r = decryptionContexts s r \<and>
         completions r (events (run x s txs)) = completions r (events s)"
proof (induction txs rule: rev_induct)
  case Nil
  show ?case by (simp add: run_def)
next
  case (snoc tx txs)
  then have ih: "decryptionContexts (run x s txs) r = decryptionContexts s r"
      "completions r (events (run x s txs)) = completions r (events s)"
    and ni: "\<not> issues r (snd tx)" by simp_all
  from ih(1) assms have "processed (decryptionContexts (run x s txs) r)" by simp
  from transact_keeps_processed [OF this ni, of x] ih
  show ?case by (simp add: run_def)
qed

lemma run_keeps_default:
  "list_all (\<lambda>tx. \<not> issues r (snd tx)) txs \<Longrightarrow>
   decryptionContexts (run x (constructor e0) txs) r
     = \<lparr> batchId = 0, stateHash = 0, processed = False \<rparr> \<and>
   completions r (events (run x (constructor e0) txs)) = 0"
proof (induction txs rule: rev_induct)
  case Nil
  show ?case by (simp add: run_def constructor_def)
next
  case (snoc tx txs)
  then have ih: "decryptionContexts (run x (constructor e0) txs) r
                   = \<lparr> batchId = 0, stateHash = 0, processed = False \<rparr>"
      "completions r (events (run x (constructor e0) txs)) = 0"
    and ni: "\<not> issues r (snd tx)" by simp_all
  have inv: "batches_inv (run x (constructor e0) txs)" using run_invariants by simp
  from transact_keeps_default [OF inv ih(1) ni, of x] ih
  show ?case by (simp add: run_def)
qed

lemma no_completion_event:
  "completions r evs = 0 \<Longrightarrow> DecryptionCompleted r b v \<notin> set evs"
  by (auto simp: completions_def filter_empty_conv)

lemma dispatch_contexts_inv:
  assumes add: "\<forall>a b. isInitialized a \<longrightarrow> isInitialized b \<longrightarrow> isInitialized (FHE_add x a b)"
    and inv: "contexts_inv s" and d: "dispatch x s e c = Inr s'"
  shows "contexts_inv s'"
proof (cases c)
  case (SubmitTip a p1 p2)
  with d have eff: "submitTip x s e a p1 p2 = Inr s'" by simp
  note f = submitTip_effect [OF eff]
  let ?c = "id' (last (batches s))"
  have new: "isInitialized (seed_or_add (FHE_add x) (batchTotalEncryptedAmount s ?c) a)"
    using f add by (simp add: seed_or_add_def isInitialized_def)
  show ?thesis
    unfolding contexts_inv_def
  proof (intro allI impI)
    fix r assume "batchId (decryptionContexts s' r) \<noteq> 0"
    with f inv have "batchId (decryptionContexts s r) < length (batches s) \<and>
        isInitialized (batchTotalEncryptedAmount s (batchId (decryptionContexts s r)))"
      by (simp add: contexts_inv_def)
    with f new show "batchId (decryptionContexts s' r) < length (batches s') \<and>
        isInitialized (batchTotalEncryptedAmount s' (batchId (decryptionContexts s' r)))"
      by simp
  qed
next
  case (RequestBatchTotalDecryption b r')
  with d inv show ?thesis
    by (auto simp: contexts_inv_def requestBatchTotalDecryption_def initIfNeeded_def wrap_def
        Let_def split: if_splits)
next
  case (MyCallback r' cl pf)
  with d inv show ?thesis
    by (auto simp: contexts_inv_def myCallback_def Let_def split: if_splits sum.splits)
next
  case OpenBatch
  with d inv show ?thesis
    by (auto simp: contexts_inv_def openBatch_def currentBatch_def Let_def less_Suc_eq
        split: if_splits)
next
  case CloseBatch
  with d inv show ?thesis
    by (auto simp: contexts_inv_def closeBatch_def currentBatch_def split: if_splits)
qed (use d inv in \<open>auto simp: contexts_inv_def transferOwnership_def addProvider_def
      removeProvider_def pause_def unpause_def setCooldownSeconds_def split: if_splits\<close>)

lemma issued_context_serializable:
  assumes "\<forall>a b. isInitialized a \<longrightarrow> isInitialized b \<longrightarrow> isInitialized (FHE_add x a b)"
  shows "contexts_inv (run x (constructor e0) txs)"
proof (induction txs rule: rev_induct)
  case Nil
  show ?case by (simp add: run_def contexts_inv_def constructor_def)
next
  case (snoc tx txs)
  show ?case
  proof (cases "dispatch x (run x (constructor e0) txs) (fst tx) (snd tx)")
    case (Inl err)
    with snoc show ?thesis by (simp add: run_def transact_def)
  next
    case (Inr s')
    from dispatch_contexts_inv [OF assms snoc Inr] Inr show ?thesis
      by (simp add: run_def transact_def)
  qed
qed

section \<open>Evaluation on concrete transactions\<close>

lemmas eval_defs =
  run_def transact_def constructor_def at_def guard_def
  transferOwnership_def addProvider_def removeProvider_def pause_def unpause_def
  setCooldownSeconds_def openBatch_def closeBatch_def submitTip_def
  requestBatchTotalDecryption_def myCallback_def
  onlyOwner_def onlyProvider_def whenNotPaused_def
  checkSubmissionCooldown_def checkDecryptionCooldown_def checked_add_def
  currentBatch_def initIfNeeded_def isInitialized_def hashCiphertexts_def
  toUint256_def toBytes32_def wrap_def
  plain_enc_def plain_dec_def plain_ext_def
  batch_amounts_def tip_indices_def map_filter_def Let_def

section \<open>The running total of a batch\<close>

text \<open>
  C1. In every state the contract reaches from its constructor, and for every batch \<open>b\<close>,
  the stored \<^verbatim>\<open>batchTotalEncryptedAmount[b]\<close> is the homomorphic fold of the encrypted amounts
  submitted to \<open>b\<close>: the first seeds it and each later one is merged with \<^verbatim>\<open>FHE.add\<close>.
  Every logged tip index is an index of the ledger and every amount is an initialized handle.
  For any decryption \<open>dec\<close> into \<^verbatim>\<open>uint32\<close> under which \<^verbatim>\<open>FHE.add\<close> is addition (and
  which returns initialized handles), decrypting the total of a batch with at least one
  contribution gives the sum of the decrypted amounts in 32-bit arithmetic: it depends only
  on the multiset of the amounts, not on their order, and as a number it is the sum of the
  plaintexts modulo \<open>2^32\<close>, hence the exact sum whenever that is below \<open>2^32\<close>. The
  decryption \<open>dec\<close> is a parameter of this statement only; no function of the model takes
  it, so the contract computes no plaintext.
\<close>

theorem batch_total_is_homomorphic_sum:
  fixes dec :: "euint32 \<Rightarrow> uint32"
  assumes "\<forall>a b. isInitialized a \<longrightarrow> isInitialized b \<longrightarrow>
             isInitialized (FHE_add x a b) \<and> dec (FHE_add x a b) = dec a + dec b"
  shows "let s = run x (constructor e0) txs; as = batch_amounts s b in
           list_all (\<lambda>i. i < length (tips s)) (tip_indices (events s) b) \<and>
           list_all isInitialized as \<and>
           batchTotalEncryptedAmount s b = homomorphic_fold (FHE_add x) as \<and>
           (as \<noteq> [] \<longrightarrow>
              dec (batchTotalEncryptedAmount s b) = sum_mset (image_mset dec (mset as)) \<and>
              unat (dec (batchTotalEncryptedAmount s b))
                = sum_list (map (\<lambda>a. unat (dec a)) as) mod 2 ^ 32)"
proof -
  define s where "s = run x (constructor e0) txs"
  define as where "as = batch_amounts s b"
  have inv: "ledger_inv x s" unfolding s_def using run_invariants by simp
  then have idx: "list_all (\<lambda>i. i < length (tips s)) (tip_indices (events s) b)"
    and ini: "list_all (\<lambda>t. isInitialized (encryptedAmount t)) (tips s)"
    and tot: "batchTotalEncryptedAmount s b = foldl (seed_or_add (FHE_add x)) 0 as"
    by (simp_all add: ledger_inv_def as_def)
  have ini_as: "list_all isInitialized as"
    using idx ini unfolding as_def batch_amounts_def by (auto simp: list_all_iff)
  have closed: "\<forall>a b. isInitialized a \<longrightarrow> isInitialized b \<longrightarrow> isInitialized (FHE_add x a b)"
    using assms by blast
  have fold: "batchTotalEncryptedAmount s b = homomorphic_fold (FHE_add x) as"
    using tot source_fold_is_homomorphic_fold [OF closed ini_as] by simp
  have sum: "dec (batchTotalEncryptedAmount s b) = sum_list (map dec as)" if "as \<noteq> []"
  proof -
    from that obtain a rest where c: "as = a # rest" by (cases as) auto
    with ini_as have "isInitialized a" "list_all isInitialized rest" by simp_all
    then show ?thesis
      using dec_foldl_add [OF assms, of a rest] fold c by (simp add: homomorphic_fold_def)
  qed
  have mset: "sum_list (map dec as) = sum_mset (image_mset dec (mset as))"
    by (metis mset_map sum_mset_sum_list)
  have un: "unat (sum_list (map dec as)) = sum_list (map (\<lambda>a. unat (dec a)) as) mod 2 ^ 32"
    using unat_sum_list [of "map dec as"] by (simp add: comp_def)
  show ?thesis
    using idx ini_as fold sum mset un unfolding Let_def s_def [symmetric] as_def [symmetric]
    by simp
qed

text \<open>
  Witness for C1: in the transparent instance, tips of 5 and 3 to batch 1 leave a total
  that decrypts to 8.
\<close>

theorem batch_total_is_homomorphic_sum_witness:
  "batch_amounts (run plain_ext (constructor (at 1 0)) demo_trace) 1 = [plain_enc 5, plain_enc 3]
   \<and> plain_dec (batchTotalEncryptedAmount (run plain_ext (constructor (at 1 0)) demo_trace) 1) = 8"
proof -
  have h: "\<forall>a b. isInitialized a \<longrightarrow> isInitialized b \<longrightarrow>
             isInitialized (FHE_add plain_ext a b) \<and>
             plain_dec (FHE_add plain_ext a b) = plain_dec a + plain_dec b"
    using plain_ext_homomorphic by simp
  have as: "batch_amounts (run plain_ext (constructor (at 1 0)) demo_trace) 1
              = [plain_enc 5, plain_enc 3]"
    by (simp add: eval_defs demo_trace_def)
  from batch_total_is_homomorphic_sum [OF h, of "at 1 0" demo_trace 1]
  have "batch_amounts (run plain_ext (constructor (at 1 0)) demo_trace) 1 \<noteq> [] \<longrightarrow>
        plain_dec (batchTotalEncryptedAmount (run plain_ext (constructor (at 1 0)) demo_trace) 1)
          = sum_mset (image_mset plain_dec
              (mset (batch_amounts (run plain_ext (constructor (at 1 0)) demo_trace) 1)))"
    unfolding Let_def by blast
  then show ?thesis using as by (simp add: plain_dec_enc)
qed

text \<open>
  The sum is not exact beyond 32 bits: after tips of \<open>2^32 - 1\<close> and 1 to batch 1, now
  closed, the plaintexts add up to 4294967296 and the total decrypts to 0. The decrypted
  total is a \<^verbatim>\<open>uint32\<close> (the callback decodes it as one), so no instance can do better.
\<close>

theorem exact_sum_counterexample:
  "\<not> isOpen (batches (run plain_ext (constructor (at 1 0)) overflow_trace) ! 1)
   \<and> batch_amounts (run plain_ext (constructor (at 1 0)) overflow_trace) 1
       = [plain_enc 4294967295, plain_enc 1]
   \<and> unat (plain_dec (plain_enc 4294967295)) + unat (plain_dec (plain_enc 1)) = 4294967296
   \<and> unat (plain_dec (batchTotalEncryptedAmount
        (run plain_ext (constructor (at 1 0)) overflow_trace) 1)) = 0"
  by (simp add: eval_defs overflow_trace_def)

section \<open>The decryption callback\<close>

text \<open>
  C2. A callback that succeeds finds the context unprocessed and leaves it processed, with
  one more \<^verbatim>\<open>DecryptionCompleted\<close> event of the request. From any state in which the
  context of \<open>r\<close> is processed, and after any further calls among which the oracle does not
  issue \<open>r\<close> again (\<^verbatim>\<open>requestBatchTotalDecryption\<close> writes the context of the identifier the
  oracle returns), the context is still processed, a callback for \<open>r\<close> fails with
  \<^verbatim>\<open>ReplayAttempt\<close> for every cleartext, every proof and every \<^verbatim>\<open>FHE.checkSignatures\<close>,
  leaves the state as it was, and no further completion of \<open>r\<close> has been logged.
\<close>

theorem callback_exactly_once:
  "(myCallback x s0 r c0 p0 = Inr s1 \<longrightarrow>
      \<not> processed (decryptionContexts s0 r) \<and> processed (decryptionContexts s1 r) \<and>
      completions r (events s1) = completions r (events s0) + 1)
   \<and> (processed (decryptionContexts s r) \<and> list_all (\<lambda>tx. \<not> issues r (snd tx)) txs \<longrightarrow>
        (let s' = run x s txs in
           processed (decryptionContexts s' r) \<and>
           myCallback x s' r cleartexts pf = Inl ReplayAttempt \<and>
           transact x s' (e, MyCallback r cleartexts pf) = s' \<and>
           completions r (events s') = completions r (events s)))"
proof -
  have first: "myCallback x s0 r c0 p0 = Inr s1 \<longrightarrow>
      \<not> processed (decryptionContexts s0 r) \<and> processed (decryptionContexts s1 r) \<and>
      completions r (events s1) = completions r (events s0) + 1"
    by (auto simp: myCallback_def Let_def split: if_splits sum.splits)
  have later: "let s' = run x s txs in
           processed (decryptionContexts s' r) \<and>
           myCallback x s' r cleartexts pf = Inl ReplayAttempt \<and>
           transact x s' (e, MyCallback r cleartexts pf) = s' \<and>
           completions r (events s') = completions r (events s)"
    if p: "processed (decryptionContexts s r)"
      and n: "list_all (\<lambda>tx. \<not> issues r (snd tx)) txs"
  proof -
    from run_keeps_processed [OF p n, of x]
    have k: "decryptionContexts (run x s txs) r = decryptionContexts s r"
      "completions r (events (run x s txs)) = completions r (events s)" by simp_all
    from k(1) p have q: "processed (decryptionContexts (run x s txs) r)" by simp
    then have "myCallback x (run x s txs) r cleartexts pf = Inl ReplayAttempt"
      by (simp add: myCallback_def)
    with q k(2) show ?thesis by (simp add: Let_def transact_def)
  qed
  from first later show ?thesis by blast
qed

text \<open>
  Witness for C2: the callback for request 9 has succeeded once; after a replay of it, a
  new batch and a request under the identifier 10, a callback for 9 with an empty cleartext
  fails with \<^verbatim>\<open>ReplayAttempt\<close>, and the log holds one completion of request 9.
\<close>

theorem callback_exactly_once_witness:
  "processed (decryptionContexts (run plain_ext (constructor (at 1 0)) fulfil_trace) 9)
   \<and> completions 9 (events (run plain_ext (constructor (at 1 0)) fulfil_trace)) = 1
   \<and> myCallback plain_ext
        (run plain_ext (run plain_ext (constructor (at 1 0)) fulfil_trace) later_trace)
        9 [] [1] = Inl ReplayAttempt
   \<and> completions 9 (events
        (run plain_ext (run plain_ext (constructor (at 1 0)) fulfil_trace) later_trace)) = 1"
proof -
  have p: "processed (decryptionContexts (run plain_ext (constructor (at 1 0)) fulfil_trace) 9)"
    by (simp add: eval_defs fulfil_trace_def demo_trace_def decode_cleartext8)
  have c: "completions 9 (events (run plain_ext (constructor (at 1 0)) fulfil_trace)) = 1"
    by (simp add: eval_defs fulfil_trace_def demo_trace_def decode_cleartext8 completions_def)
  have n: "list_all (\<lambda>tx. \<not> issues 9 (snd tx)) later_trace"
    by (simp add: later_trace_def)
  from callback_exactly_once [where s = "run plain_ext (constructor (at 1 0)) fulfil_trace"
      and r = 9 and txs = later_trace and x = plain_ext and cleartexts = "[]" and pf = "[1]"]
    p n c
  show ?thesis by (simp add: Let_def)
qed

text \<open>
  C3. For a context that is not yet processed, whose batch exists and whose current running
  total is an initialized handle (so that it can be serialized), a fingerprint recomputed
  from the current total and the contract's address that differs from the stored one makes
  the callback fail with \<^verbatim>\<open>StateMismatch\<close>, whatever the cleartext and the proof, and
  whatever \<^verbatim>\<open>FHE.checkSignatures\<close> answers: the comparison comes before the proof check and
  before the cleartext is decoded. The two side conditions are those of a context a request
  has stored: lemma \<open>issued_context_serializable\<close> shows them in every state reached from
  the constructor, when \<^verbatim>\<open>FHE.add\<close> returns initialized handles. A context without them is
  rejected earlier, with the index panic or with \<^verbatim>\<open>NotInitialized\<close>.
\<close>

theorem fingerprint_binding:
  "\<not> processed (decryptionContexts s r) \<Longrightarrow>
   batchId (decryptionContexts s r) < length (batches s) \<Longrightarrow>
   isInitialized (batchTotalEncryptedAmount s (batchId (decryptionContexts s r))) \<Longrightarrow>
   hashCiphertexts x
       [toBytes32 (wrap (batchTotalEncryptedAmount s (batchId (decryptionContexts s r))))]
     \<noteq> stateHash (decryptionContexts s r) \<Longrightarrow>
   myCallback x s r cleartexts pf = Inl StateMismatch"
  by (simp add: myCallback_def initIfNeeded_def Let_def wrap_def)

text \<open>
  Witness for C3: request 7 fingerprinted the total \<open>plain_enc 8\<close> of the closed batch 1,
  the stored total is now \<open>plain_enc 9\<close>; a callback with the cleartext 8 and an
  accepted proof fails with \<^verbatim>\<open>StateMismatch\<close>.
\<close>

theorem fingerprint_binding_witness:
  "FHE_checkSignatures plain_ext 7 cleartext8 [1]
   \<and> abi_decode_uint32 cleartext8 = Inr 8
   \<and> myCallback plain_ext drifted_state 7 cleartext8 [1] = Inl StateMismatch"
proof -
  have "myCallback plain_ext drifted_state 7 cleartext8 [1] = Inl StateMismatch"
    by (rule fingerprint_binding) (simp_all add: drifted_state_def eval_defs)
  then show ?thesis
    by (simp add: plain_ext_def decode_cleartext8)
qed

section \<open>The batch state machine\<close>

text \<open>
  C4. In every state reached from the constructor by any sequence of calls (in particular
  by \<^verbatim>\<open>openBatch\<close> and \<^verbatim>\<open>closeBatch\<close> calls), at most one batch is open, and an open batch
  is the last one, whose identifier is the highest. While a batch is open \<^verbatim>\<open>openBatch\<close>
  fails, with the error \<^verbatim>\<open>BatchOpen\<close> of the contract (the spec's BatchAlreadyOpen) for a
  provider calling the unpaused contract; while none is open \<^verbatim>\<open>closeBatch\<close> fails, with
  \<^verbatim>\<open>BatchNotOpen\<close> for such a caller. A caller that is not a provider gets
  \<^verbatim>\<open>NotProvider\<close>, and a provider calling the paused contract \<^verbatim>\<open>PausedState\<close>.
\<close>

theorem single_open_batch:
  "let s = run x (constructor e0) txs in
     length (filter isOpen (batches s)) \<le> 1 \<and>
     (\<forall>b \<in> set (batches s). isOpen b \<longrightarrow>
        b = last (batches s) \<and> (\<forall>b' \<in> set (batches s). id' b' \<le> id' b)) \<and>
     ((\<exists>b \<in> set (batches s). isOpen b) \<longrightarrow>
        openBatch s e = Inl (if \<not> isProvider s (sender e) then NotProvider
                             else if paused s then PausedState else BatchOpen)) \<and>
     ((\<forall>b \<in> set (batches s). \<not> isOpen b) \<longrightarrow>
        closeBatch s e = Inl (if \<not> isProvider s (sender e) then NotProvider
                              else if paused s then PausedState else BatchNotOpen))"
proof -
  define s where "s = run x (constructor e0) txs"
  let ?bs = "batches s"
  have inv: "batches_inv s" unfolding s_def using run_invariants by simp
  then have ne: "?bs \<noteq> []" and ids: "map id' ?bs = [0..<length ?bs]"
    and cl: "list_all (\<lambda>b. \<not> isOpen b) (butlast ?bs)"
    by (simp_all add: batches_inv_def)
  have split: "?bs = butlast ?bs @ [last ?bs]" using ne by simp
  have fl: "filter isOpen (butlast ?bs) = []" using cl by (simp add: list_all_iff)
  have "filter isOpen ?bs = filter isOpen (butlast ?bs) @ filter isOpen [last ?bs]"
    by (subst split) (simp only: filter_append)
  then have one: "length (filter isOpen ?bs) \<le> 1" by (simp add: fl)
  have last_only: "b = last ?bs" if "b \<in> set ?bs" "isOpen b" for b
  proof -
    from that(1) have "b \<in> set (butlast ?bs) \<or> b = last ?bs"
      by (subst (asm) split) auto
    with that(2) cl show ?thesis by (auto simp: list_all_iff)
  qed
  have top: "id' b' \<le> id' (last ?bs)" if "b' \<in> set ?bs" for b'
  proof -
    from that have "id' b' \<in> set (map id' ?bs)" by simp
    then have "id' b' < length ?bs" by (simp only: ids) simp
    then show ?thesis using id_last [OF ne ids] by simp
  qed
  have open_iff: "(\<exists>b \<in> set ?bs. isOpen b) \<longleftrightarrow> isOpen (last ?bs)"
    using last_only ne by (metis last_in_set)
  have op: "openBatch s e = Inl (if \<not> isProvider s (sender e) then NotProvider
                             else if paused s then PausedState else BatchOpen)"
    if "\<exists>b \<in> set ?bs. isOpen b"
    using that ne unfolding open_iff
    by (simp add: openBatch_def onlyProvider_def whenNotPaused_def currentBatch_def)
  have clo: "closeBatch s e = Inl (if \<not> isProvider s (sender e) then NotProvider
                              else if paused s then PausedState else BatchNotOpen)"
    if "\<forall>b \<in> set ?bs. \<not> isOpen b"
  proof -
    from that ne have "\<not> isOpen (last ?bs)" by simp
    then show ?thesis using ne
      by (simp add: closeBatch_def onlyProvider_def whenNotPaused_def currentBatch_def)
  qed
  show ?thesis
    unfolding Let_def s_def [symmetric]
    using one last_only top op clo by blast
qed

text \<open>
  Witness for C4: after the provider opens batch 1 it is the one open batch and a second
  \<^verbatim>\<open>openBatch\<close> fails; after batch 1 is closed, and in the contract just deployed,
  \<^verbatim>\<open>closeBatch\<close> fails.
\<close>

theorem single_open_batch_witness:
  "length (filter isOpen (batches (run plain_ext (constructor (at 1 0)) [(at 1 100, OpenBatch)]))) = 1
   \<and> isOpen (last (batches (run plain_ext (constructor (at 1 0)) [(at 1 100, OpenBatch)])))
   \<and> openBatch (run plain_ext (constructor (at 1 0)) [(at 1 100, OpenBatch)]) (at 1 105)
       = Inl BatchOpen
   \<and> closeBatch (run plain_ext (constructor (at 1 0)) demo_trace) (at 1 140) = Inl BatchNotOpen
   \<and> closeBatch (constructor (at 1 0)) (at 1 5) = Inl BatchNotOpen"
  using
    single_open_batch [where x = plain_ext and ?e0.0 = "at 1 0" and txs = "[(at 1 100, OpenBatch)]"
      and e = "at 1 105"]
    single_open_batch [where x = plain_ext and ?e0.0 = "at 1 0" and txs = demo_trace
      and e = "at 1 140"]
    single_open_batch [where x = plain_ext and ?e0.0 = "at 1 0" and txs = "[]" and e = "at 1 5"]
  by (simp add: eval_defs demo_trace_def)

section \<open>Submitting a tip\<close>

text \<open>
  C5. While the latest batch is closed, \<^verbatim>\<open>submitTip\<close> fails: with \<^verbatim>\<open>BatchNotOpen\<close> once the
  call has passed its modifiers, and with the error of the first modifier that rejects it
  otherwise (\<^verbatim>\<open>PausedState\<close>, then the cooldown check). In the state the constructor
  leaves, where only the sentinel batch 0 exists, that is \<^verbatim>\<open>BatchNotOpen\<close> for every call
  from timestamp 60 on. With the latest batch open and the modifiers passed, a handle that
  is not initialized among the three makes it fail with \<^verbatim>\<open>NotInitialized\<close>. Whatever the
  error, the transaction leaves the state as it was: no tip appended, count, running total
  and submission timer unchanged.
\<close>

theorem submitTip_all_or_nothing:
  "(batches s \<noteq> [] \<and> \<not> isOpen (last (batches s)) \<longrightarrow>
      submitTip x s e a p1 p2 =
        Inl (if paused s then PausedState
             else case checkSubmissionCooldown s e of Some err \<Rightarrow> err | None \<Rightarrow> BatchNotOpen))
   \<and> submitTip x (constructor e0) e a p1 p2 =
        Inl (if timestamp e < 60 then CooldownActive else BatchNotOpen)
   \<and> (submit_gates s e \<and> batches s \<noteq> [] \<and> isOpen (last (batches s)) \<and>
        (\<not> isInitialized a \<or> \<not> isInitialized p1 \<or> \<not> isInitialized p2) \<longrightarrow>
      submitTip x s e a p1 p2 = Inl NotInitialized)
   \<and> (\<forall>err. submitTip x s e a p1 p2 = Inl err \<longrightarrow>
        transact x s (e, SubmitTip a p1 p2) = s)"
proof -
  have c: "checkSubmissionCooldown (constructor e0) e
             = (if timestamp e < 60 then Some CooldownActive else None)"
    by (simp add: checkSubmissionCooldown_def checked_add_def constructor_def)
  show ?thesis
    apply (intro conjI)
       apply (simp add: submitTip_def whenNotPaused_def currentBatch_def guard_def
        split: option.splits)
      apply (simp add: submitTip_def c whenNotPaused_def currentBatch_def)
      apply (simp add: constructor_def)
     apply (auto simp: submit_gates_def submitTip_def whenNotPaused_def currentBatch_def
        initIfNeeded_def)[1]
    apply (simp add: transact_def)
    done
qed

text \<open>
  Witness for C5: a tip to the closed batch 1 and a tip to the contract just deployed fail
  with \<^verbatim>\<open>BatchNotOpen\<close>; a tip with the zero handle as amount to the open batch 1 fails
  with \<^verbatim>\<open>NotInitialized\<close> and leaves the state as it was.
\<close>

theorem submitTip_all_or_nothing_witness:
  "submitTip plain_ext (run plain_ext (constructor (at 1 0)) demo_trace) (at 2 500)
       (plain_enc 4) (plain_enc 0) (plain_enc 0) = Inl BatchNotOpen
   \<and> submitTip plain_ext (constructor (at 1 0)) (at 2 500)
       (plain_enc 4) (plain_enc 0) (plain_enc 0) = Inl BatchNotOpen
   \<and> submitTip plain_ext (run plain_ext (constructor (at 1 0)) [(at 1 100, OpenBatch)]) (at 2 500)
       0 (plain_enc 0) (plain_enc 0) = Inl NotInitialized
   \<and> transact plain_ext (run plain_ext (constructor (at 1 0)) [(at 1 100, OpenBatch)])
         (at 2 500, SubmitTip 0 (plain_enc 0) (plain_enc 0))
       = run plain_ext (constructor (at 1 0)) [(at 1 100, OpenBatch)]"
  using
    submitTip_all_or_nothing [where s = "run plain_ext (constructor (at 1 0)) demo_trace"
      and x = plain_ext and e = "at 2 500" and a = "plain_enc 4" and ?p1.0 = "plain_enc 0"
      and ?p2.0 = "plain_enc 0" and ?e0.0 = "at 1 0"]
    submitTip_all_or_nothing [where s = "run plain_ext (constructor (at 1 0)) [(at 1 100, OpenBatch)]"
      and x = plain_ext and e = "at 2 500" and a = 0 and ?p1.0 = "plain_enc 0"
      and ?p2.0 = "plain_enc 0" and ?e0.0 = "at 1 0"]
  by (simp add: eval_defs submit_gates_def demo_trace_def)

section \<open>Requesting the decryption of a batch total\<close>

text \<open>
  C6. Once the modifiers are passed, \<^verbatim>\<open>requestBatchTotalDecryption\<close> fails with
  \<^verbatim>\<open>InvalidBatch\<close> for batch 0 and for an identifier with no batch, with \<^verbatim>\<open>BatchOpen\<close> while
  the named batch is open, and with \<^verbatim>\<open>NotInitialized\<close> when the running total of the batch
  is not initialized; in every state reached from the constructor that is the case of a
  batch with no contribution. A successful call has passed all these checks, stores the
  context with the batch, the fingerprint of its total and \<^verbatim>\<open>processed = false\<close> under the
  identifier the oracle issued, sets the caller's decryption timer to the timestamp and logs
  \<^verbatim>\<open>DecryptionRequested\<close>; and a call that passes the checks succeeds.
\<close>

theorem requestBatchTotalDecryption_checks:
  "(request_gates s e \<longrightarrow>
      (bid = 0 \<or> length (batches s) \<le> bid \<longrightarrow>
         requestBatchTotalDecryption x s e bid rid = Inl InvalidBatch)
      \<and> (0 < bid \<and> bid < length (batches s) \<and> isOpen (batches s ! bid) \<longrightarrow>
         requestBatchTotalDecryption x s e bid rid = Inl BatchOpen)
      \<and> (0 < bid \<and> bid < length (batches s) \<and> \<not> isOpen (batches s ! bid) \<and>
           \<not> isInitialized (batchTotalEncryptedAmount s bid) \<longrightarrow>
         requestBatchTotalDecryption x s e bid rid = Inl NotInitialized))
   \<and> (let t = run x (constructor e0) txs in
        request_gates t e \<and> 0 < bid \<and> bid < length (batches t) \<and> \<not> isOpen (batches t ! bid) \<and>
        batch_amounts t bid = [] \<longrightarrow>
        requestBatchTotalDecryption x t e bid rid = Inl NotInitialized)
   \<and> (\<forall>s'. requestBatchTotalDecryption x s e bid rid = Inr s' \<longrightarrow>
        request_gates s e \<and> 0 < bid \<and> bid < length (batches s) \<and> \<not> isOpen (batches s ! bid) \<and>
        isInitialized (batchTotalEncryptedAmount s bid) \<and>
        decryptionContexts s' = (decryptionContexts s)
          (rid := \<lparr> batchId = bid,
                    stateHash = hashCiphertexts x [toBytes32 (wrap (batchTotalEncryptedAmount s bid))],
                    processed = False \<rparr>) \<and>
        lastDecryptionRequestTime s' = (lastDecryptionRequestTime s)(sender e := timestamp e) \<and>
        events s' = events s @
          [DecryptionRequested rid bid
             (hashCiphertexts x [toBytes32 (wrap (batchTotalEncryptedAmount s bid))])])
   \<and> (request_gates s e \<and> 0 < bid \<and> bid < length (batches s) \<and> \<not> isOpen (batches s ! bid) \<and>
        isInitialized (batchTotalEncryptedAmount s bid) \<longrightarrow>
        (\<exists>s'. requestBatchTotalDecryption x s e bid rid = Inr s'))"
proof -
  have single: "request_gates s e \<Longrightarrow>
      requestBatchTotalDecryption x s e bid rid =
        (if length (batches s) \<le> bid \<or> bid = 0 then Inl InvalidBatch
         else if isOpen (batches s ! bid) then Inl BatchOpen
         else if \<not> isInitialized (batchTotalEncryptedAmount s bid) then Inl NotInitialized
         else Inr (s\<lparr> decryptionContexts := (decryptionContexts s)
                         (rid := \<lparr> batchId = bid,
                                   stateHash = hashCiphertexts x
                                     [toBytes32 (wrap (batchTotalEncryptedAmount s bid))],
                                   processed = False \<rparr>),
                       lastDecryptionRequestTime :=
                         (lastDecryptionRequestTime s)(sender e := timestamp e),
                       events := events s @
                         [DecryptionRequested rid bid
                            (hashCiphertexts x
                               [toBytes32 (wrap (batchTotalEncryptedAmount s bid))])] \<rparr>))" for s
    by (simp add: request_gates_def requestBatchTotalDecryption_def onlyProvider_def
        whenNotPaused_def initIfNeeded_def wrap_def Let_def)
  have gates: "requestBatchTotalDecryption x s e bid rid = Inr s' \<Longrightarrow> request_gates s e" for s'
    by (auto simp: request_gates_def requestBatchTotalDecryption_def onlyProvider_def
        whenNotPaused_def split: if_splits)
  have empty: "batch_amounts (run x (constructor e0) txs) bid = [] \<Longrightarrow>
      \<not> isInitialized (batchTotalEncryptedAmount (run x (constructor e0) txs) bid)"
    using run_invariants [of x e0 txs] by (simp add: ledger_inv_def isInitialized_def)
  have p1: "request_gates s e \<longrightarrow>
      (bid = 0 \<or> length (batches s) \<le> bid \<longrightarrow>
         requestBatchTotalDecryption x s e bid rid = Inl InvalidBatch)
      \<and> (0 < bid \<and> bid < length (batches s) \<and> isOpen (batches s ! bid) \<longrightarrow>
         requestBatchTotalDecryption x s e bid rid = Inl BatchOpen)
      \<and> (0 < bid \<and> bid < length (batches s) \<and> \<not> isOpen (batches s ! bid) \<and>
           \<not> isInitialized (batchTotalEncryptedAmount s bid) \<longrightarrow>
         requestBatchTotalDecryption x s e bid rid = Inl NotInitialized)"
    using single [of s] by auto
  have p2: "let t = run x (constructor e0) txs in
        request_gates t e \<and> 0 < bid \<and> bid < length (batches t) \<and> \<not> isOpen (batches t ! bid) \<and>
        batch_amounts t bid = [] \<longrightarrow>
        requestBatchTotalDecryption x t e bid rid = Inl NotInitialized"
    unfolding Let_def using single [of "run x (constructor e0) txs"] empty by auto
  have p3: "\<forall>s'. requestBatchTotalDecryption x s e bid rid = Inr s' \<longrightarrow>
        request_gates s e \<and> 0 < bid \<and> bid < length (batches s) \<and> \<not> isOpen (batches s ! bid) \<and>
        isInitialized (batchTotalEncryptedAmount s bid) \<and>
        decryptionContexts s' = (decryptionContexts s)
          (rid := \<lparr> batchId = bid,
                    stateHash = hashCiphertexts x [toBytes32 (wrap (batchTotalEncryptedAmount s bid))],
                    processed = False \<rparr>) \<and>
        lastDecryptionRequestTime s' = (lastDecryptionRequestTime s)(sender e := timestamp e) \<and>
        events s' = events s @
          [DecryptionRequested rid bid
             (hashCiphertexts x [toBytes32 (wrap (batchTotalEncryptedAmount s bid))])]"
  proof (intro allI impI)
    fix s' assume r: "requestBatchTotalDecryption x s e bid rid = Inr s'"
    note g = gates [OF r]
    from r single [OF g] show "request_gates s e \<and> 0 < bid \<and> bid < length (batches s) \<and>
        \<not> isOpen (batches s ! bid) \<and>
        isInitialized (batchTotalEncryptedAmount s bid) \<and>
        decryptionContexts s' = (decryptionContexts s)
          (rid := \<lparr> batchId = bid,
                    stateHash = hashCiphertexts x [toBytes32 (wrap (batchTotalEncryptedAmount s bid))],
                    processed = False \<rparr>) \<and>
        lastDecryptionRequestTime s' = (lastDecryptionRequestTime s)(sender e := timestamp e) \<and>
        events s' = events s @
          [DecryptionRequested rid bid
             (hashCiphertexts x [toBytes32 (wrap (batchTotalEncryptedAmount s bid))])]"
      using g by (auto split: if_splits)
  qed
  have p4: "request_gates s e \<and> 0 < bid \<and> bid < length (batches s) \<and> \<not> isOpen (batches s ! bid) \<and>
        isInitialized (batchTotalEncryptedAmount s bid) \<longrightarrow>
        (\<exists>s'. requestBatchTotalDecryption x s e bid rid = Inr s')"
    using single [of s] by auto
  from p1 p2 p3 p4 show ?thesis by blast
qed

text \<open>
  Witness for C6: the provider's requests for batch 0 and for the missing batch 2, for the
  open batch 1, for the closed and empty batch 1, and for the closed batch 1 holding the
  tips 5 and 3, which stores the context under the issued identifier 9.
\<close>

theorem requestBatchTotalDecryption_checks_witness:
  "requestBatchTotalDecryption plain_ext (run plain_ext (constructor (at 1 0)) demo_trace)
       (at 1 500) 0 9 = Inl InvalidBatch
   \<and> requestBatchTotalDecryption plain_ext (run plain_ext (constructor (at 1 0)) demo_trace)
       (at 1 500) 2 9 = Inl InvalidBatch
   \<and> requestBatchTotalDecryption plain_ext
       (run plain_ext (constructor (at 1 0)) [(at 1 100, OpenBatch)]) (at 1 500) 1 9 = Inl BatchOpen
   \<and> requestBatchTotalDecryption plain_ext
       (run plain_ext (constructor (at 1 0)) [(at 1 100, OpenBatch), (at 1 130, CloseBatch)])
       (at 1 500) 1 9 = Inl NotInitialized
   \<and> (case requestBatchTotalDecryption plain_ext
            (run plain_ext (constructor (at 1 0)) demo_trace) (at 1 500) 1 9 of
         Inl _ \<Rightarrow> False
       | Inr s' \<Rightarrow>
           decryptionContexts s' 9 =
             \<lparr> batchId = 1, stateHash = hashCiphertexts plain_ext [toBytes32 (plain_enc 8)],
               processed = False \<rparr>
           \<and> lastDecryptionRequestTime s' 1 = 500)"
  using
    requestBatchTotalDecryption_checks [where s = "run plain_ext (constructor (at 1 0)) demo_trace"
      and x = plain_ext and e = "at 1 500" and bid = 0 and rid = 9 and ?e0.0 = "at 1 0" and txs = "[]"]
    requestBatchTotalDecryption_checks [where s = "run plain_ext (constructor (at 1 0)) demo_trace"
      and x = plain_ext and e = "at 1 500" and bid = 2 and rid = 9 and ?e0.0 = "at 1 0" and txs = "[]"]
    requestBatchTotalDecryption_checks
      [where s = "run plain_ext (constructor (at 1 0)) [(at 1 100, OpenBatch)]"
      and x = plain_ext and e = "at 1 500" and bid = 1 and rid = 9 and ?e0.0 = "at 1 0"
      and txs = "[(at 1 100, OpenBatch), (at 1 130, CloseBatch)]"]
    requestBatchTotalDecryption_checks [where s = "run plain_ext (constructor (at 1 0)) demo_trace"
      and x = plain_ext and e = "at 1 500" and bid = 1 and rid = 9 and ?e0.0 = "at 1 0" and txs = "[]"]
  by (simp add: eval_defs request_gates_def demo_trace_def)

section \<open>The cooldown\<close>

text \<open>
  C7. A call of \<^verbatim>\<open>submitTip\<close> that has passed \<^verbatim>\<open>whenNotPaused\<close> fails with
  \<^verbatim>\<open>CooldownActive\<close> exactly when the sum of the caller's last submission time and
  \<^verbatim>\<open>cooldownSeconds\<close> fits in 256 bits and the timestamp is below it; when the sum does not
  fit, the checked addition makes the call fail with an arithmetic panic instead. The same
  holds for \<^verbatim>\<open>requestBatchTotalDecryption\<close> by a provider, with the caller's last decryption
  request time. Both read the one field \<^verbatim>\<open>cooldownSeconds\<close>, which \<^verbatim>\<open>setCooldownSeconds\<close>,
  called by the owner, sets to its argument while leaving both timers as they were.
\<close>

theorem cooldown_guard:
  "(\<not> paused s \<longrightarrow>
      (submitTip x s e a p1 p2 = Inl CooldownActive \<longleftrightarrow>
         unat (lastSubmissionTime s (sender e)) + unat (cooldownSeconds s) < 2 ^ 256 \<and>
         unat (timestamp e) < unat (lastSubmissionTime s (sender e)) + unat (cooldownSeconds s))
      \<and> (2 ^ 256 \<le> unat (lastSubmissionTime s (sender e)) + unat (cooldownSeconds s) \<longrightarrow>
           submitTip x s e a p1 p2 = Inl PanicArithmetic))
   \<and> (isProvider s (sender e) \<and> \<not> paused s \<longrightarrow>
      (requestBatchTotalDecryption x s e bid rid = Inl CooldownActive \<longleftrightarrow>
         unat (lastDecryptionRequestTime s (sender e)) + unat (cooldownSeconds s) < 2 ^ 256 \<and>
         unat (timestamp e)
           < unat (lastDecryptionRequestTime s (sender e)) + unat (cooldownSeconds s))
      \<and> (2 ^ 256 \<le> unat (lastDecryptionRequestTime s (sender e)) + unat (cooldownSeconds s) \<longrightarrow>
           requestBatchTotalDecryption x s e bid rid = Inl PanicArithmetic))
   \<and> (\<forall>s'. setCooldownSeconds s e n = Inr s' \<longrightarrow>
        sender e = owner s \<and> cooldownSeconds s' = n \<and>
        lastSubmissionTime s' = lastSubmissionTime s \<and>
        lastDecryptionRequestTime s' = lastDecryptionRequestTime s)
   \<and> (sender e = owner s \<longrightarrow> (\<exists>s'. setCooldownSeconds s e n = Inr s'))"
proof -
  let ?ls = "unat (lastSubmissionTime s (sender e)) + unat (cooldownSeconds s)"
  let ?ld = "unat (lastDecryptionRequestTime s (sender e)) + unat (cooldownSeconds s)"
  have sub: "checkSubmissionCooldown s e =
      (if 2 ^ 256 \<le> ?ls then Some PanicArithmetic
       else if unat (timestamp e) < ?ls then Some CooldownActive else None)"
    unfolding checkSubmissionCooldown_def by (rule cooldown_limit)
  have dec: "checkDecryptionCooldown s e =
      (if 2 ^ 256 \<le> ?ld then Some PanicArithmetic
       else if unat (timestamp e) < ?ld then Some CooldownActive else None)"
    unfolding checkDecryptionCooldown_def by (rule cooldown_limit)
  have s1: "submitTip x s e a p1 p2 = Inl CooldownActive \<longleftrightarrow>
              ?ls < 2 ^ 256 \<and> unat (timestamp e) < ?ls" if "\<not> paused s"
  proof (cases "checkSubmissionCooldown s e = Some CooldownActive")
    case True
    then have "submitTip x s e a p1 p2 = Inl CooldownActive"
      using that by (simp add: submitTip_def whenNotPaused_def)
    with True show ?thesis by (auto simp: sub split: if_splits)
  next
    case False
    then have "submitTip x s e a p1 p2 \<noteq> Inl CooldownActive"
      using that by (rule submitTip_body_not_cooldown [rotated])
    with False show ?thesis by (auto simp: sub split: if_splits)
  qed
  have s2: "submitTip x s e a p1 p2 = Inl PanicArithmetic" if "\<not> paused s" "2 ^ 256 \<le> ?ls"
    using that by (simp add: submitTip_def whenNotPaused_def sub)
  have d1: "requestBatchTotalDecryption x s e bid rid = Inl CooldownActive \<longleftrightarrow>
              ?ld < 2 ^ 256 \<and> unat (timestamp e) < ?ld"
    if "isProvider s (sender e)" "\<not> paused s"
  proof (cases "checkDecryptionCooldown s e = Some CooldownActive")
    case True
    then have "requestBatchTotalDecryption x s e bid rid = Inl CooldownActive"
      using that by (simp add: requestBatchTotalDecryption_def onlyProvider_def whenNotPaused_def)
    with True show ?thesis by (auto simp: dec split: if_splits)
  next
    case False
    then have "requestBatchTotalDecryption x s e bid rid \<noteq> Inl CooldownActive"
      using that request_body_not_cooldown by blast
    with False show ?thesis by (auto simp: dec split: if_splits)
  qed
  have d2: "requestBatchTotalDecryption x s e bid rid = Inl PanicArithmetic"
    if "isProvider s (sender e)" "\<not> paused s" "2 ^ 256 \<le> ?ld"
    using that
    by (simp add: requestBatchTotalDecryption_def onlyProvider_def whenNotPaused_def dec)
  have k: "\<forall>s'. setCooldownSeconds s e n = Inr s' \<longrightarrow>
        sender e = owner s \<and> cooldownSeconds s' = n \<and>
        lastSubmissionTime s' = lastSubmissionTime s \<and>
        lastDecryptionRequestTime s' = lastDecryptionRequestTime s"
    by (auto simp: setCooldownSeconds_def onlyOwner_def split: if_splits)
  have k2: "sender e = owner s \<longrightarrow> (\<exists>s'. setCooldownSeconds s e n = Inr s')"
    by (simp add: setCooldownSeconds_def onlyOwner_def)
  from s1 s2 d1 d2 k k2 show ?thesis by blast
qed

text \<open>
  Witness for C7: with the cooldown of 60 seconds and a tip at 110, account 2 is refused at
  150 and not at 170; the provider, who has requested nothing yet, is refused at 30; with
  the cooldown at \<open>2^256 - 1\<close> the call panics; the owner sets the cooldown to 5.
\<close>

theorem cooldown_guard_witness:
  "submitTip plain_ext (run plain_ext (constructor (at 1 0)) (take 2 cooldown_trace)) (at 2 150)
       (plain_enc 3) (plain_enc 0) (plain_enc 0) = Inl CooldownActive
   \<and> submitTip plain_ext (run plain_ext (constructor (at 1 0)) (take 2 cooldown_trace)) (at 2 170)
       (plain_enc 3) (plain_enc 0) (plain_enc 0) \<noteq> Inl CooldownActive
   \<and> requestBatchTotalDecryption plain_ext
       (run plain_ext (constructor (at 1 0)) (take 2 cooldown_trace)) (at 1 30) 1 9
       = Inl CooldownActive
   \<and> submitTip plain_ext (run plain_ext (constructor (at 1 0)) cooldown_trace) (at 2 200)
       (plain_enc 3) (plain_enc 0) (plain_enc 0) = Inl PanicArithmetic
   \<and> (case setCooldownSeconds (run plain_ext (constructor (at 1 0)) (take 2 cooldown_trace))
              (at 1 120) 5 of
         Inl _ \<Rightarrow> False
       | Inr s' \<Rightarrow> cooldownSeconds s' = 5 \<and> lastSubmissionTime s' 2 = 110)"
  using
    cooldown_guard [where s = "run plain_ext (constructor (at 1 0)) (take 2 cooldown_trace)"
      and x = plain_ext and e = "at 2 150" and a = "plain_enc 3" and ?p1.0 = "plain_enc 0"
      and ?p2.0 = "plain_enc 0" and bid = 1 and rid = 9 and n = 5]
    cooldown_guard [where s = "run plain_ext (constructor (at 1 0)) (take 2 cooldown_trace)"
      and x = plain_ext and e = "at 2 170" and a = "plain_enc 3" and ?p1.0 = "plain_enc 0"
      and ?p2.0 = "plain_enc 0" and bid = 1 and rid = 9 and n = 5]
    cooldown_guard [where s = "run plain_ext (constructor (at 1 0)) (take 2 cooldown_trace)"
      and x = plain_ext and e = "at 1 30" and a = "plain_enc 3" and ?p1.0 = "plain_enc 0"
      and ?p2.0 = "plain_enc 0" and bid = 1 and rid = 9 and n = 5]
    cooldown_guard [where s = "run plain_ext (constructor (at 1 0)) cooldown_trace"
      and x = plain_ext and e = "at 2 200" and a = "plain_enc 3" and ?p1.0 = "plain_enc 0"
      and ?p2.0 = "plain_enc 0" and bid = 1 and rid = 9 and n = 5]
    cooldown_guard [where s = "run plain_ext (constructor (at 1 0)) (take 2 cooldown_trace)"
      and x = plain_ext and e = "at 1 120" and a = "plain_enc 3" and ?p1.0 = "plain_enc 0"
      and ?p2.0 = "plain_enc 0" and bid = 1 and rid = 9 and n = 5]
  by (simp add: eval_defs cooldown_trace_def)

text \<open>
  The cooldown is not always reported as \<^verbatim>\<open>CooldownActive\<close>: with \<^verbatim>\<open>cooldownSeconds\<close> at
  \<open>2^256 - 1\<close> and a last submission at 110, a tip at 200 is inside the window, and the
  call fails with the arithmetic panic of the checked addition.
\<close>

theorem cooldown_overflow_counterexample:
  "\<not> paused (run plain_ext (constructor (at 1 0)) cooldown_trace)
   \<and> unat (timestamp (at 2 200))
       < unat (lastSubmissionTime (run plain_ext (constructor (at 1 0)) cooldown_trace)
                 (sender (at 2 200)))
         + unat (cooldownSeconds (run plain_ext (constructor (at 1 0)) cooldown_trace))
   \<and> submitTip plain_ext (run plain_ext (constructor (at 1 0)) cooldown_trace) (at 2 200)
         (plain_enc 3) (plain_enc 0) (plain_enc 0) = Inl PanicArithmetic
   \<and> submitTip plain_ext (run plain_ext (constructor (at 1 0)) cooldown_trace) (at 2 200)
         (plain_enc 3) (plain_enc 0) (plain_enc 0) \<noteq> Inl CooldownActive"
  by (simp add: eval_defs cooldown_trace_def)

section \<open>Roles\<close>

text \<open>
  C8. Called by the owner, \<^verbatim>\<open>addProvider\<close> on an address that is already a provider and
  \<^verbatim>\<open>removeProvider\<close> on an address that is not return the state as it was: the set of
  providers and the event log are unchanged. For either function, two calls in a row by the
  same caller leave the state that one call leaves.
\<close>

theorem provider_changes_idempotent:
  "(sender e = owner s \<longrightarrow> isProvider s p \<longrightarrow> addProvider s e p = Inr s)
   \<and> (sender e = owner s \<longrightarrow> \<not> isProvider s p \<longrightarrow> removeProvider s e p = Inr s)
   \<and> (sender e2 = sender e1 \<longrightarrow>
        transact x (transact x s (e1, AddProvider p)) (e2, AddProvider p)
          = transact x s (e1, AddProvider p))
   \<and> (sender e2 = sender e1 \<longrightarrow>
        transact x (transact x s (e1, RemoveProvider p)) (e2, RemoveProvider p)
          = transact x s (e1, RemoveProvider p))"
  by (simp add: addProvider_def removeProvider_def onlyOwner_def transact_def)

text \<open>
  Witness for C8: account 1 deployed the contract and is its owner and a provider, account
  2 is not a provider; account 1 adds account 2 twice, and removes account 1 twice.
\<close>

theorem provider_changes_idempotent_witness:
  "addProvider (constructor (at 1 0)) (at 1 5) 1 = Inr (constructor (at 1 0))
   \<and> removeProvider (constructor (at 1 0)) (at 1 5) 2 = Inr (constructor (at 1 0))
   \<and> transact plain_ext (transact plain_ext (constructor (at 1 0)) (at 1 5, AddProvider 2))
         (at 1 9, AddProvider 2)
       = transact plain_ext (constructor (at 1 0)) (at 1 5, AddProvider 2)
   \<and> isProvider (transact plain_ext (constructor (at 1 0)) (at 1 5, AddProvider 2)) 2
   \<and> transact plain_ext (transact plain_ext (constructor (at 1 0)) (at 1 5, RemoveProvider 1))
         (at 1 9, RemoveProvider 1)
       = transact plain_ext (constructor (at 1 0)) (at 1 5, RemoveProvider 1)
   \<and> \<not> isProvider (transact plain_ext (constructor (at 1 0)) (at 1 5, RemoveProvider 1)) 1"
  using provider_changes_idempotent [of "at 1 5" "constructor (at 1 0)" 1]
    provider_changes_idempotent [of "at 1 5" "constructor (at 1 0)" 2 "at 1 9" "at 1 5" plain_ext]
    provider_changes_idempotent [of "at 1 5" "constructor (at 1 0)" 1 "at 1 9" "at 1 5" plain_ext]
  by (simp add: eval_defs)

text \<open>
  C10. A successful \<^verbatim>\<open>transferOwnership\<close> is a call by the owner; it changes the field
  \<^verbatim>\<open>owner\<close> and appends the event \<^verbatim>\<open>OwnershipTransferred\<close>, and nothing else: providers, pause
  flag, cooldown, batches, tips, aggregates, timers and decryption contexts are as before.
  After the deployer hands the contract to another account, the deployer is still a
  provider and the new owner is not.
\<close>

theorem transferOwnership_frame:
  "(transferOwnership s e newOwner = Inr s' \<longrightarrow>
      s' = s\<lparr> owner := newOwner,
               events := events s @ [OwnershipTransferred (owner s) newOwner] \<rparr>
      \<and> sender e = owner s
      \<and> isProvider s' = isProvider s \<and> paused s' = paused s
      \<and> cooldownSeconds s' = cooldownSeconds s
      \<and> batches s' = batches s \<and> tips s' = tips s
      \<and> batchTipCount s' = batchTipCount s
      \<and> batchTotalEncryptedAmount s' = batchTotalEncryptedAmount s
      \<and> lastSubmissionTime s' = lastSubmissionTime s
      \<and> lastDecryptionRequestTime s' = lastDecryptionRequestTime s
      \<and> decryptionContexts s' = decryptionContexts s)
   \<and> (sender e = sender e0 \<and> newOwner \<noteq> sender e0 \<longrightarrow>
        (case transferOwnership (constructor e0) e newOwner of
           Inl _ \<Rightarrow> False
         | Inr t \<Rightarrow> owner t = newOwner \<and> isProvider t (sender e0) \<and> \<not> isProvider t newOwner))"
  by (auto simp add: transferOwnership_def onlyOwner_def constructor_def split: if_splits)

text \<open>Witness for C10: account 1 deploys and transfers the ownership to account 2.\<close>

theorem transferOwnership_frame_witness:
  "(case transferOwnership (constructor (at 1 0)) (at 1 5) 2 of
      Inl _ \<Rightarrow> False
    | Inr t \<Rightarrow> owner t = 2 \<and> isProvider t 1 \<and> \<not> isProvider t 2)
   \<and> transferOwnership (constructor (at 1 0)) (at 1 5) 2
       = Inr ((constructor (at 1 0))
               \<lparr> owner := 2, events := [OwnershipTransferred 1 2] \<rparr>)"
  using transferOwnership_frame [of "constructor (at 1 0)" "at 1 5" 2
      "(constructor (at 1 0))\<lparr> owner := 2, events := [OwnershipTransferred 1 2] \<rparr>" "at 1 0"]
  by (simp add: eval_defs)

section \<open>Requests the contract never issued\<close>

text \<open>
  C9. Take any sequence of calls from the constructor in which no decryption request is
  answered with the identifier \<open>r\<close>. In the state it reaches, the context of \<open>r\<close> is the
  default one, pointing at the sentinel batch 0, whose running total is still
  uninitialized; a callback for \<open>r\<close> fails with \<^verbatim>\<open>NotInitialized\<close> for every cleartext and
  proof, before the proof is checked, and leaves the state as it was; the context of \<open>r\<close>
  is not processed and the log holds no \<^verbatim>\<open>DecryptionCompleted\<close> event of \<open>r\<close>.
\<close>

theorem unissued_request_never_completes:
  assumes "list_all (\<lambda>tx. \<not> issues r (snd tx)) txs"
  shows "let s = run x (constructor e0) txs in
           decryptionContexts s r = \<lparr> batchId = 0, stateHash = 0, processed = False \<rparr> \<and>
           \<not> isInitialized (batchTotalEncryptedAmount s 0) \<and>
           myCallback x s r cleartexts pf = Inl NotInitialized \<and>
           transact x s (e, MyCallback r cleartexts pf) = s \<and>
           \<not> processed (decryptionContexts s r) \<and>
           (\<forall>b v. DecryptionCompleted r b v \<notin> set (events s))"
proof -
  define s where "s = run x (constructor e0) txs"
  have inv: "batches_inv s" unfolding s_def using run_invariants by simp
  from run_keeps_default [OF assms, of x e0]
  have d: "decryptionContexts s r = \<lparr> batchId = 0, stateHash = 0, processed = False \<rparr>"
    and c: "completions r (events s) = 0" by (simp_all add: s_def)
  have cb: "myCallback x s r cleartexts pf = Inl NotInitialized"
    by (rule callback_default [OF inv d])
  have z: "\<not> isInitialized (batchTotalEncryptedAmount s 0)"
    using inv by (simp add: batches_inv_def isInitialized_def)
  have ev: "\<forall>b v. DecryptionCompleted r b v \<notin> set (events s)"
    using no_completion_event [OF c] by blast
  show ?thesis
    unfolding Let_def s_def [symmetric]
    using d z cb ev by (simp add: transact_def)
qed

text \<open>
  Witness for C9: the oracle has issued the identifier 9 only; a callback for the
  identifier 3 with the cleartext 8 and an accepted proof fails with \<^verbatim>\<open>NotInitialized\<close>.
\<close>

theorem unissued_request_never_completes_witness:
  "myCallback plain_ext (run plain_ext (constructor (at 1 0)) fulfil_trace) 3 cleartext8 [1]
     = Inl NotInitialized
   \<and> \<not> processed (decryptionContexts (run plain_ext (constructor (at 1 0)) fulfil_trace) 3)
   \<and> DecryptionCompleted 3 1 8 \<notin> set (events (run plain_ext (constructor (at 1 0)) fulfil_trace))"
proof -
  have n: "list_all (\<lambda>tx. \<not> issues 3 (snd tx)) fulfil_trace"
    by (simp add: fulfil_trace_def demo_trace_def)
  from unissued_request_never_completes [OF n, where x = plain_ext and ?e0.0 = "at 1 0"
      and cleartexts = cleartext8 and pf = "[1]"]
  show ?thesis by (simp add: Let_def)
qed

end
